theory Spec2Isabelle
  imports Complex_Main "HOL-Library.Multiset"
begin

section \<open>JavaScript numbers\<close>

text \<open>
  The vectors, scores and magnitudes of the program are JavaScript numbers. The model keeps
  the three exceptional values of a number, since the program produces them
  (\<open>0 / 0\<close> is \<open>NaN\<close>, \<open>undefined\<close> in arithmetic is \<open>NaN\<close>), and takes the
  finite values as real numbers: rounding of finite results and the sign of zero are not
  modelled. Every zero is read as \<open>+0\<close>; the divisors of this program are products of
  square roots, which are never \<open>-0\<close>.

  The code computes in binary64, so a score of the code is the rounded value of what the
  model computes, and two scores that are equal here can differ in the last bit there
  (\<open>[1, 1]\<close> against \<open>[1, 1]\<close> is \<open>1\<close> here and \<open>0.9999999999999998\<close> in the code).
  For this reason no theorem on a ranking says which of two documents comes first by the
  value of a computed score: each says how the result is ordered with respect to the
  scores it carries, which holds of the rounded scores as of the exact ones. The concrete
  inputs below use vectors of zeros and ones, on which binary64 is exact.
\<close>

datatype jsnum = Fin real | PInf | NInf | NaN

fun js_neg :: "jsnum \<Rightarrow> jsnum" where
  "js_neg (Fin x) = Fin (- x)"
| "js_neg PInf = NInf"
| "js_neg NInf = PInf"
| "js_neg NaN = NaN"

fun js_add :: "jsnum \<Rightarrow> jsnum \<Rightarrow> jsnum" where
  "js_add NaN _ = NaN"
| "js_add _ NaN = NaN"
| "js_add (Fin x) (Fin y) = Fin (x + y)"
| "js_add PInf NInf = NaN"
| "js_add NInf PInf = NaN"
| "js_add PInf _ = PInf"
| "js_add NInf _ = NInf"
| "js_add (Fin x) PInf = PInf"
| "js_add (Fin x) NInf = NInf"

definition js_sub :: "jsnum \<Rightarrow> jsnum \<Rightarrow> jsnum" where
  "js_sub a b = js_add a (js_neg b)"

text \<open>The sign of a number that is not \<open>NaN\<close>: \<open>-1\<close>, \<open>0\<close> or \<open>1\<close>.\<close>

fun js_sign :: "jsnum \<Rightarrow> int" where
  "js_sign (Fin x) = (if x < 0 then - 1 else if x = 0 then 0 else 1)"
| "js_sign PInf = 1"
| "js_sign NInf = - 1"
| "js_sign NaN = 0"

definition js_inf :: "int \<Rightarrow> jsnum" where
  "js_inf s = (if s < 0 then NInf else PInf)"

fun js_mul :: "jsnum \<Rightarrow> jsnum \<Rightarrow> jsnum" where
  "js_mul NaN _ = NaN"
| "js_mul _ NaN = NaN"
| "js_mul (Fin x) (Fin y) = Fin (x * y)"
| "js_mul a b = (if js_sign a = 0 \<or> js_sign b = 0 then NaN else js_inf (js_sign a * js_sign b))"

fun js_div :: "jsnum \<Rightarrow> jsnum \<Rightarrow> jsnum" where
  "js_div NaN _ = NaN"
| "js_div _ NaN = NaN"
| "js_div (Fin x) (Fin y) =
     (if y = 0 then (if x = 0 then NaN else js_inf (js_sign (Fin x))) else Fin (x / y))"
| "js_div (Fin x) _ = Fin 0"
| "js_div a (Fin y) = js_inf (js_sign a * (if y < 0 then - 1 else 1))"
| "js_div _ _ = NaN"

fun js_sqrt :: "jsnum \<Rightarrow> jsnum" where
  "js_sqrt (Fin x) = (if x < 0 then NaN else Fin (sqrt x))"
| "js_sqrt PInf = PInf"
| "js_sqrt NInf = NaN"
| "js_sqrt NaN = NaN"

text \<open>\<open>val ** 2\<close>.\<close>

definition js_sq :: "jsnum \<Rightarrow> jsnum" where
  "js_sq v = js_mul v v"

text \<open>A number in a condition: \<open>0\<close> and \<open>NaN\<close> are falsy.\<close>

fun truthy :: "jsnum \<Rightarrow> bool" where
  "truthy (Fin x) = (x \<noteq> 0)"
| "truthy NaN = False"
| "truthy _ = True"

text \<open>
  \<open>Array.prototype.sort\<close> reads the comparator's result \<open>v\<close> as: \<open>v < 0\<close>, \<open>v > 0\<close>, or
  neither (a \<open>NaN\<close> result counts as \<open>0\<close>).
\<close>

definition js_pos :: "jsnum \<Rightarrow> bool" where
  "js_pos v = (js_sign v = 1)"

type_synonym vector = "jsnum list"

text \<open>\<open>vecB[i]\<close> used as an operand: past the end it is \<open>undefined\<close>, which is \<open>NaN\<close> as a number.\<close>

definition at_index :: "vector \<Rightarrow> nat \<Rightarrow> jsnum" where
  "at_index v i = (if i < length v then v ! i else NaN)"

section \<open>Array methods\<close>

text \<open>
  \<open>xs.sort(cmp)\<close>: the sort of ECMAScript is stable, and \<open>a\<close> comes after \<open>b\<close> when
  \<open>cmp(a, b) > 0\<close>. It is modelled by a stable insertion sort. With a comparator that is
  consistent, every stable sort gives this result; with one that is not (some difference
  of scores is \<open>NaN\<close>), ECMAScript leaves the order to the implementation, and the
  theorems below that speak of the order exclude that case.
\<close>

fun insert_by :: "('a \<Rightarrow> 'a \<Rightarrow> jsnum) \<Rightarrow> 'a \<Rightarrow> 'a list \<Rightarrow> 'a list" where
  "insert_by cmp x [] = [x]"
| "insert_by cmp x (y # ys) =
     (if js_pos (cmp x y) then y # insert_by cmp x ys else x # y # ys)"

definition sort_by :: "('a \<Rightarrow> 'a \<Rightarrow> jsnum) \<Rightarrow> 'a list \<Rightarrow> 'a list" where
  "sort_by cmp xs = foldr (insert_by cmp) xs []"

text \<open>
  \<open>xs.slice(0, k)\<close> for an integer \<open>k\<close>: a negative \<open>k\<close> counts from the end of the array.
\<close>

definition slice0 :: "'a list \<Rightarrow> int \<Rightarrow> 'a list" where
  "slice0 xs k =
     (if k < 0 then take (nat (max (int (length xs) + k) 0)) xs else take (nat k) xs)"

section \<open>The index of server.js\<close>

record entry =
  vector :: vector
  docId :: nat

record scored =
  sdocId :: nat
  score :: jsnum

text \<open>\<open>vecA.reduce((sum, val, i) => sum + val * vecB[i], 0)\<close>\<close>

definition dotProduct :: "vector \<Rightarrow> vector \<Rightarrow> jsnum" where
  "dotProduct vecA vecB =
     fold (\<lambda>(i, val) sum. js_add sum (js_mul val (at_index vecB i))) (enumerate 0 vecA) (Fin 0)"

text \<open>\<open>Math.sqrt(vec.reduce((sum, val) => sum + val ** 2, 0))\<close>\<close>

definition magnitude :: "vector \<Rightarrow> jsnum" where
  "magnitude vec = js_sqrt (fold (\<lambda>val sum. js_add sum (js_sq val)) vec (Fin 0))"

text \<open>The \<open>cosineSimilarity\<close> inside \<open>FAISS.search\<close>.\<close>

definition cosineSimilarity :: "vector \<Rightarrow> vector \<Rightarrow> jsnum" where
  "cosineSimilarity vecA vecB =
     js_div (dotProduct vecA vecB) (js_mul (magnitude vecA) (magnitude vecB))"

text \<open>The comparator \<open>(a, b) => b.score - a.score\<close>.\<close>

definition by_score :: "scored \<Rightarrow> scored \<Rightarrow> jsnum" where
  "by_score a b = js_sub (score b) (score a)"

definition FAISS_add :: "vector \<Rightarrow> nat \<Rightarrow> entry list \<Rightarrow> entry list" where
  "FAISS_add vec d index = index @ [\<lparr>vector = vec, docId = d\<rparr>]"

text \<open>\<open>const results = FAISS.index.map(...)\<close>\<close>

definition FAISS_results :: "entry list \<Rightarrow> vector \<Rightarrow> scored list" where
  "FAISS_results index queryVector =
     map (\<lambda>item. \<lparr>sdocId = docId item, score = cosineSimilarity queryVector (vector item)\<rparr>) index"

definition FAISS_search :: "entry list \<Rightarrow> vector \<Rightarrow> int \<Rightarrow> scored list" where
  "FAISS_search index queryVector k =
     (if length index = 0 then []
      else slice0 (sort_by by_score (FAISS_results index queryVector)) k)"

section \<open>Strings\<close>

text \<open>
  A string is a list of characters; \<open>length\<close> stands for \<open>.length\<close> (which in JavaScript
  counts UTF-16 code units).
\<close>

text \<open>A number in a template literal, as \<open>${i + 1}\<close>: decimal digits.\<close>

definition digit :: "nat \<Rightarrow> char" where
  "digit d = ''0123456789'' ! d"

fun decimal :: "nat \<Rightarrow> string" where
  "decimal n = (if 10 \<le> n then decimal (n div 10) @ [digit (n mod 10)] else [digit n])"

text \<open>\<open>xs.join(sep)\<close>\<close>

fun join :: "string \<Rightarrow> string list \<Rightarrow> string" where
  "join sep [] = []"
| "join sep [x] = x"
| "join sep (x # y # ys) = x @ sep @ join sep (y # ys)"

text \<open>
  A field of the request body that is a string or absent. \<open>!content\<close> holds for an absent
  field and for the empty string.
\<close>

fun falsy :: "string option \<Rightarrow> bool" where
  "falsy None = True"
| "falsy (Some s) = (s = [])"

section \<open>The OpenAI client (embed.js, embedArray.js)\<close>

datatype js_error = Error (message: string) | RangeError (message: string)

text \<open>
  The two calls of the client are parameters of the model: each either rejects or
  resolves, \<open>embeddings.create\<close> with \<open>response.data[0].embedding\<close> and
  \<open>chat.completions.create\<close> with \<open>response.choices[0].message.content\<close>.
\<close>

type_synonym embeddings_api = "string \<Rightarrow> js_error + vector"
type_synonym chat_api = "string \<Rightarrow> js_error + string"

text \<open>\<open>getEmbeddings\<close> of embed.js.\<close>

definition getEmbeddings :: "embeddings_api \<Rightarrow> string \<Rightarrow> js_error + vector" where
  "getEmbeddings create tokens =
     (case create tokens of
        Inr embedding \<Rightarrow> Inr embedding
      | Inl e \<Rightarrow> Inl (Error ''Error calling OpenAI API getEmbeddings''))"

text \<open>\<open>getEmbeddings\<close> of embedArray.js.\<close>

definition getEmbeddingsA :: "embeddings_api \<Rightarrow> string \<Rightarrow> js_error + vector" where
  "getEmbeddingsA create tokens =
     (case create tokens of
        Inr embedding \<Rightarrow> Inr embedding
      | Inl e \<Rightarrow> Inl (Error ''Error retrieving embeddings''))"

text \<open>A value in a template literal that may be \<open>undefined\<close>.\<close>

fun template :: "string option \<Rightarrow> string" where
  "template None = ''undefined''"
| "template (Some s) = s"

text \<open>
  \<open>getAnswer\<close> of embed.js. Its \<open>catch\<close> logs the error and falls off the end of the
  function: the promise resolves with \<open>undefined\<close>, here \<open>None\<close>.
\<close>

definition getAnswer :: "chat_api \<Rightarrow> string \<Rightarrow> string option \<Rightarrow> js_error + string option" where
  "getAnswer create context question =
     (let prompt =
        ''Answer the question based on the context below. If the question can't be answered based on the context, make a reasonable guess.\<newline> Context: ''
        @ context @ ''\<newline>Question: '' @ template question @ ''\<newline>Answer:''
      in if length prompt > 10000
         then Inl (Error (''Prompt is too long: '' @ decimal (length prompt) @ '' characters''))
         else (case create prompt of
                 Inr answer \<Rightarrow> Inr (Some answer)
               | Inl e \<Rightarrow> Inr None))"

text \<open>\<open>getAnswer\<close> of embedArray.js: its \<open>catch\<close> throws.\<close>

definition getAnswerA :: "chat_api \<Rightarrow> string \<Rightarrow> string \<Rightarrow> js_error + string" where
  "getAnswerA create context question =
     (let prompt =
        ''Answer the question based on the context below. If the question can't be answered based on the context, make a reasonable guess.\<newline>Context: ''
        @ context @ ''\<newline>Question: '' @ question @ ''\<newline>Answer:''
      in if length prompt > 10000
         then Inl (Error (''Prompt is too long: '' @ decimal (length prompt) @ '' characters''))
         else (case create prompt of
                 Inr answer \<Rightarrow> Inr answer
               | Inl e \<Rightarrow> Inl (Error ''Error generating answer from OpenAI'')))"

section \<open>Float32Array\<close>

text \<open>
  \<open>new Float32Array(vector)\<close> rounds every number to the nearest binary32 value, ties to
  the even significand; a result of magnitude \<open>2^128\<close> or more is an infinity. A binary32
  value with exponent \<open>e\<close> is a multiple of \<open>2^(e - 23)\<close>; the least exponent is \<open>-126\<close>.
\<close>

definition pow2 :: "int \<Rightarrow> real" where
  "pow2 e = (if 0 \<le> e then 2 ^ nat e else 1 / 2 ^ nat (- e))"

text \<open>The largest \<open>e\<close> from \<open>-126\<close> to \<open>n - 126\<close> with \<open>2^e \<le> a\<close>, and \<open>-126\<close> when there is none.\<close>

fun exponent_upto :: "nat \<Rightarrow> real \<Rightarrow> int" where
  "exponent_upto 0 a = - 126"
| "exponent_upto (Suc n) a =
     (if pow2 (int n - 125) \<le> a then int n - 125 else exponent_upto n a)"

definition round_even :: "real \<Rightarrow> int" where
  "round_even r =
     (let n = \<lfloor>r\<rfloor>; d = r - of_int n
      in if d < 1 / 2 then n else if 1 / 2 < d then n + 1 else if even n then n else n + 1)"

text \<open>The binary32 value nearest to \<open>a\<close>, for \<open>a\<close> not negative, before the check of overflow.\<close>

definition nearest_binary32 :: "real \<Rightarrow> real" where
  "nearest_binary32 a =
     (let q = pow2 (exponent_upto 253 a - 23) in of_int (round_even (a / q)) * q)"

definition fround_real :: "real \<Rightarrow> jsnum" where
  "fround_real x =
     (let r = nearest_binary32 \<bar>x\<bar>
      in if pow2 128 \<le> r then js_inf (js_sign (Fin x))
         else Fin (if x < 0 then - r else r))"

fun fround :: "jsnum \<Rightarrow> jsnum" where
  "fround (Fin x) = fround_real x"
| "fround v = v"

text \<open>
  The column \<open>vector\<close> holds the bytes of a \<open>Float32Array\<close>. The model keeps the binary32
  values the bytes encode, not the bytes: what is written is what is read.
\<close>

type_synonym blob = "jsnum list"

text \<open>\<open>Buffer.from(new Float32Array(vector).buffer)\<close>\<close>

definition toBuffer :: "vector \<Rightarrow> blob" where
  "toBuffer vec = map fround vec"

text \<open>\<open>Array.from(new Float32Array(row.vector.buffer))\<close>\<close>

definition fromBuffer :: "blob \<Rightarrow> vector" where
  "fromBuffer b = b"

section \<open>The table \<open>documents\<close>\<close>

text \<open>
  \<open>id INTEGER PRIMARY KEY AUTOINCREMENT, content TEXT UNIQUE, vector BLOB\<close>. The rows are
  kept in the order of their insertion, which is the order of a \<open>SELECT\<close> without
  \<open>ORDER BY\<close> on this table. \<open>seq\<close> is the counter of \<open>AUTOINCREMENT\<close> (the table's row
  in \<open>sqlite_sequence\<close>): the largest id the table has handed out.
  \<open>last_insert_rowid\<close> belongs to the connection: the id of the last row this process
  inserted, \<open>0\<close> when it has inserted none. When \<open>io_error\<close> holds a message, sqlite3
  calls the callback of a statement with that error.
\<close>

record row =
  row_id :: nat
  row_content :: string
  row_vector :: blob

record database =
  rows :: "row list"
  seq :: nat
  last_insert_rowid :: nat
  io_error :: "string option"

text \<open>What \<open>this\<close> holds in the callback of \<open>db.run\<close>.\<close>

record run_result =
  changes :: nat
  lastID :: nat

definition next_id :: "database \<Rightarrow> nat" where
  "next_id d = Suc (fold max (map row_id (rows d)) (seq d))"

text \<open>
  \<open>INSERT OR IGNORE INTO documents (content, vector) VALUES (?, ?)\<close>. SQLite takes the
  next id from the counter before it checks \<open>UNIQUE\<close>: an insert that is ignored inserts
  no row and changes no row, but the counter keeps the id it took, so that the next new
  row skips it. The connection's last insert rowid changes only when a row is inserted.
\<close>

definition insert_or_ignore ::
  "database \<Rightarrow> string \<Rightarrow> blob \<Rightarrow> js_error + (run_result \<times> database)" where
  "insert_or_ignore d c v =
     (case io_error d of
        Some msg \<Rightarrow> Inl (Error msg)
      | None \<Rightarrow>
      if c \<in> set (map row_content (rows d))
      then Inr (\<lparr>changes = 0, lastID = last_insert_rowid d\<rparr>, d\<lparr>seq := next_id d\<rparr>)
      else Inr (\<lparr>changes = 1, lastID = next_id d\<rparr>,
                d\<lparr>rows := rows d @ [\<lparr>row_id = next_id d, row_content = c, row_vector = v\<rparr>],
                  seq := next_id d, last_insert_rowid := next_id d\<rparr>))"

text \<open>\<open>SELECT ... FROM documents\<close>\<close>

definition select_all :: "database \<Rightarrow> js_error + row list" where
  "select_all d = (case io_error d of Some msg \<Rightarrow> Inl (Error msg) | None \<Rightarrow> Inr (rows d))"

text \<open>\<open>SELECT COUNT(*) as count FROM documents\<close>\<close>

definition select_count :: "database \<Rightarrow> js_error + nat" where
  "select_count d =
     (case io_error d of Some msg \<Rightarrow> Inl (Error msg) | None \<Rightarrow> Inr (length (rows d)))"

text \<open>\<open>SELECT id, content FROM documents WHERE id IN (...)\<close>\<close>

definition select_in :: "database \<Rightarrow> nat list \<Rightarrow> js_error + row list" where
  "select_in d ids =
     (case io_error d of
        Some msg \<Rightarrow> Inl (Error msg)
      | None \<Rightarrow> Inr (filter (\<lambda>r. row_id r \<in> set ids) (rows d)))"

section \<open>The server of server.js\<close>

record state =
  db :: database
  FAISS_index :: "entry list"

record hit =
  hdocId :: nat
  content :: string
  hscore :: jsnum

datatype body =
    ErrorBody string
  | ErrorDetails string string
  | Added string nat
  | Message string
  | Found string "hit list" "string option"
  | Answered string string

text \<open>
  What a request ends in: a response with its status, or a promise rejected with nobody
  to catch it, in which case no response is sent.
\<close>

datatype reply = Reply nat body | Unhandled js_error

text \<open>\<open>synchronizeFAISS\<close>\<close>

definition synchronizeFAISS :: "state \<Rightarrow> state" where
  "synchronizeFAISS s =
     (case select_all (db s) of
        Inl err \<Rightarrow> s
      | Inr rws \<Rightarrow>
          s\<lparr>FAISS_index :=
              fold (\<lambda>row ix. FAISS_add (fromBuffer (row_vector row)) (row_id row) ix)
                rws (FAISS_index s)\<rparr>)"

text \<open>\<open>app.post('/add', ...)\<close>\<close>

definition post_add :: "embeddings_api \<Rightarrow> string option \<Rightarrow> state \<Rightarrow> reply \<times> state" where
  "post_add openai body_content s =
     (case body_content of
        None \<Rightarrow> (Reply 400 (ErrorBody ''Content is required''), s)
      | Some c \<Rightarrow>
          if c = [] then (Reply 400 (ErrorBody ''Content is required''), s)
          else (case getEmbeddings openai c of
                  Inl err \<Rightarrow> (Reply 500 (ErrorBody ''Error processing document.''), s)
                | Inr vec \<Rightarrow>
                    (case insert_or_ignore (db s) c (toBuffer vec) of
                       Inl err \<Rightarrow> (Reply 500 (ErrorBody ''Error adding document.''), s)
                     | Inr (this, d) \<Rightarrow>
                         if changes this > 0
                         then (Reply 200 (Added ''Document added.'' (lastID this)),
                               s\<lparr>db := d, FAISS_index := FAISS_add vec (lastID this) (FAISS_index s)\<rparr>)
                         else (Reply 200 (Message ''Document already exists.''), s\<lparr>db := d\<rparr>))))"

text \<open>The \<open>cosineSimilarity\<close> inside \<open>app.post('/search', ...)\<close>.\<close>

definition cosineSimilarity_search :: "vector \<Rightarrow> vector \<Rightarrow> jsnum" where
  "cosineSimilarity_search vecA vecB =
     (if truthy (magnitude vecA) \<and> truthy (magnitude vecB)
      then js_div (dotProduct vecA vecB) (js_mul (magnitude vecA) (magnitude vecB))
      else Fin 0)"

text \<open>
  The array \<open>results\<close> of the handler: one element per row, in the order of the rows,
  with the score of the row's stored vector against the query vector.
\<close>

definition search_results :: "vector \<Rightarrow> row list \<Rightarrow> hit list" where
  "search_results queryVector rws =
     map (\<lambda>row. \<lparr>hdocId = row_id row, content = row_content row,
             hscore = cosineSimilarity_search queryVector (fromBuffer (row_vector row))\<rparr>) rws"

text \<open>The comparator \<open>(a, b) => b.score - a.score\<close> of the handler.\<close>

definition by_hscore :: "hit \<Rightarrow> hit \<Rightarrow> jsnum" where
  "by_hscore a b = js_sub (hscore b) (hscore a)"

text \<open>\<open>topResults.map((r, i) => `${i + 1}. ${r.content}`)\<close>\<close>

definition numbered :: "string list \<Rightarrow> string list" where
  "numbered cs = map (\<lambda>(i, c). decimal (i + 1) @ ''. '' @ c) (enumerate 0 cs)"

text \<open>
  \<open>app.post('/search', ...)\<close>. The request's \<open>k\<close> is an integer or absent (then 5).
  The handler calls \<open>getAnswer(prompt)\<close> with one argument and does not catch what it throws.
\<close>

definition post_search ::
  "embeddings_api \<Rightarrow> chat_api \<Rightarrow> string option \<Rightarrow> int option \<Rightarrow> state \<Rightarrow> reply" where
  "post_search openai chat body_query body_k s =
     (case body_query of
        None \<Rightarrow> Reply 400 (ErrorBody ''Query is required'')
      | Some query \<Rightarrow>
          if query = [] then Reply 400 (ErrorBody ''Query is required'')
          else (case getEmbeddings openai query of
                  Inl err \<Rightarrow> Reply 500 (ErrorDetails ''Error processing query.'' (message err))
                | Inr queryVector \<Rightarrow>
                    (case select_all (db s) of
                       Inl err \<Rightarrow> Reply 500 (ErrorBody ''Error fetching documents.'')
                     | Inr rws \<Rightarrow>
                         let results = search_results queryVector rws;
                             topResults =
                               slice0 (sort_by by_hscore results)
                                 (case body_k of None \<Rightarrow> 5 | Some k \<Rightarrow> k);
                             prompt = ''Query: '' @ query @ ''\<newline>Documents:\<newline>''
                                      @ join ''\<newline>'' (numbered (map content topResults))
                         in (case getAnswer chat prompt None of
                               Inl err \<Rightarrow> Unhandled err
                             | Inr answer \<Rightarrow> Reply 200 (Found prompt topResults answer)))))"

section \<open>The server of serverArray.js\<close>

definition ALENGTH :: nat where
  "ALENGTH = 5"

text \<open>\<open>vec.slice(0, ALENGTH)\<close>\<close>

definition slice_ALENGTH :: "vector \<Rightarrow> vector" where
  "slice_ALENGTH vec = take ALENGTH vec"

text \<open>
  \<open>math.dot\<close> and \<open>math.norm\<close> are functions of the library mathjs: \<open>dot\<close> throws a
  \<open>RangeError\<close> for vectors of different lengths and for empty vectors, and is the sum of
  the products otherwise; \<open>norm(v, 2)\<close> is the square root of the sum of the squared
  absolute values.
\<close>

fun js_abs :: "jsnum \<Rightarrow> jsnum" where
  "js_abs (Fin x) = Fin \<bar>x\<bar>"
| "js_abs NInf = PInf"
| "js_abs v = v"

definition math_dot :: "vector \<Rightarrow> vector \<Rightarrow> js_error + jsnum" where
  "math_dot a b =
     (if length a \<noteq> length b
      then Inl (RangeError (''Vectors must have equal length ('' @ decimal (length a)
                  @ '' != '' @ decimal (length b) @ '')''))
      else if length a = 0
      then Inl (RangeError ''Cannot calculate the dot product of empty vectors'')
      else Inr (fold (\<lambda>(x, y) c. js_add c (js_mul x y)) (zip a b) (Fin 0)))"

definition math_norm :: "vector \<Rightarrow> jsnum" where
  "math_norm v = js_sqrt (fold (\<lambda>val n. js_add (js_sq (js_abs val)) n) v (Fin 0))"

text \<open>The \<open>cosineSimilarity\<close> inside \<open>FAISS.search\<close> of serverArray.js.\<close>

definition cosineSimilarityA :: "vector \<Rightarrow> vector \<Rightarrow> js_error + jsnum" where
  "cosineSimilarityA vecA vecB =
     (case math_dot vecA vecB of
        Inl err \<Rightarrow> Inl err
      | Inr dot \<Rightarrow> Inr (js_div dot (js_mul (math_norm vecA) (math_norm vecB))))"

text \<open>\<open>xs.map(f)\<close> for an \<open>f\<close> that may throw: the first exception ends the call.\<close>

fun map_throwing :: "('a \<Rightarrow> js_error + 'b) \<Rightarrow> 'a list \<Rightarrow> js_error + 'b list" where
  "map_throwing f [] = Inr []"
| "map_throwing f (x # xs) =
     (case f x of
        Inl err \<Rightarrow> Inl err
      | Inr y \<Rightarrow> (case map_throwing f xs of Inl err \<Rightarrow> Inl err | Inr ys \<Rightarrow> Inr (y # ys)))"

definition FAISS_addA :: "vector \<Rightarrow> nat \<Rightarrow> entry list \<Rightarrow> entry list" where
  "FAISS_addA vec d ix = ix @ [\<lparr>vector = slice_ALENGTH vec, docId = d\<rparr>]"

definition FAISS_resultsA :: "entry list \<Rightarrow> vector \<Rightarrow> js_error + scored list" where
  "FAISS_resultsA ix queryVector =
     map_throwing
       (\<lambda>item. case cosineSimilarityA (vector item) queryVector of
                  Inl err \<Rightarrow> Inl err
                | Inr sc \<Rightarrow> Inr \<lparr>sdocId = docId item, score = sc\<rparr>) ix"

definition FAISS_searchA :: "entry list \<Rightarrow> vector \<Rightarrow> int \<Rightarrow> js_error + scored list" where
  "FAISS_searchA ix queryVector k =
     (if length ix = 0 then Inr []
      else (case FAISS_resultsA ix queryVector of
              Inl err \<Rightarrow> Inl err
            | Inr results \<Rightarrow> Inr (slice0 (sort_by by_score results) k)))"

text \<open>\<open>synchronizeFAISS\<close> of serverArray.js.\<close>

definition synchronizeFAISSA :: "state \<Rightarrow> state" where
  "synchronizeFAISSA s =
     (case select_count (db s) of
        Inl err \<Rightarrow> s
      | Inr n \<Rightarrow>
          if n = 0 then s
          else (case select_all (db s) of
                  Inl err \<Rightarrow> s
                | Inr rws \<Rightarrow>
                    s\<lparr>FAISS_index :=
                        fold (\<lambda>row ix. FAISS_addA (slice_ALENGTH (fromBuffer (row_vector row)))
                                          (row_id row) ix)
                          rws (FAISS_index s)\<rparr>))"

text \<open>\<open>app.post('/add', ...)\<close> of serverArray.js.\<close>

definition post_addA :: "embeddings_api \<Rightarrow> string option \<Rightarrow> state \<Rightarrow> reply \<times> state" where
  "post_addA openai body_content s =
     (case body_content of
        None \<Rightarrow> (Reply 400 (ErrorBody ''Content is required''), s)
      | Some c \<Rightarrow>
          if c = [] then (Reply 400 (ErrorBody ''Content is required''), s)
          else (case getEmbeddingsA openai c of
                  Inl err \<Rightarrow> (Reply 500 (ErrorBody ''Error processing document.''), s)
                | Inr vec \<Rightarrow>
                    (case insert_or_ignore (db s) c (toBuffer vec) of
                       Inl err \<Rightarrow> (Reply 500 (ErrorBody ''Error adding document.''), s)
                     | Inr (this, d) \<Rightarrow>
                         if changes this > 0
                         then (Reply 200 (Added ''Document added.'' (lastID this)),
                               s\<lparr>db := d, FAISS_index := FAISS_addA vec (lastID this) (FAISS_index s)\<rparr>)
                         else (Reply 200 (Message ''Document already exists.''), s\<lparr>db := d\<rparr>))))"

text \<open>
  \<open>topDocuments.find((doc) => doc.id === result.docId)\<close>, and then
  \<open>document ? document.content : null\<close>.
\<close>

definition content_of :: "row list \<Rightarrow> nat \<Rightarrow> string option" where
  "content_of topDocuments d =
     (case find (\<lambda>doc. row_id doc = d) topDocuments of
        None \<Rightarrow> None
      | Some doc \<Rightarrow> Some (row_content doc))"

text \<open>
  \<open>app.post('/search', ...)\<close> of serverArray.js. The request's \<open>k\<close> is an integer or
  absent (then 1). Everything after the check of the query runs inside \<open>try\<close>.
\<close>

definition post_searchA ::
  "embeddings_api \<Rightarrow> chat_api \<Rightarrow> string option \<Rightarrow> int option \<Rightarrow> state \<Rightarrow> reply" where
  "post_searchA openai chat body_query body_k s =
     (case body_query of
        None \<Rightarrow> Reply 400 (ErrorBody ''Query is required'')
      | Some query \<Rightarrow>
          if query = [] then Reply 400 (ErrorBody ''Query is required'')
          else (case getEmbeddingsA openai query of
                  Inl err \<Rightarrow> Reply 500 (ErrorDetails ''Error processing query.'' (message err))
                | Inr queryVector \<Rightarrow>
                    (case FAISS_searchA (FAISS_index s) (slice_ALENGTH queryVector)
                            (case body_k of None \<Rightarrow> 1 | Some k \<Rightarrow> k) of
                       Inl err \<Rightarrow> Reply 500 (ErrorDetails ''Error processing query.'' (message err))
                     | Inr faissResults \<Rightarrow>
                         (case select_in (db s) (map sdocId faissResults) of
                            Inl err \<Rightarrow>
                              Reply 500 (ErrorDetails ''Error processing query.'' (message err))
                          | Inr topDocuments \<Rightarrow>
                              let topResults =
                                    map (\<lambda>result. content_of topDocuments (sdocId result))
                                      faissResults;
                                  context =
                                    join ''\<newline>''
                                      (numbered (map template
                                         (filter (\<lambda>c. \<not> falsy c) topResults)))
                              in (case getAnswerA chat context query of
                                    Inl err \<Rightarrow>
                                      Reply 500
                                        (ErrorDetails ''Error processing query.'' (message err))
                                  | Inr answer \<Rightarrow> Reply 200 (Answered query answer))))))"

section \<open>Store and index together\<close>

text \<open>
  What holds of the state of a running server: the table has no content twice
  (\<open>UNIQUE\<close>) and no id twice (\<open>PRIMARY KEY\<close>), and the index holds one entry per row,
  in the order of the rows.
\<close>

definition consistent :: "state \<Rightarrow> bool" where
  "consistent s =
     (distinct (map row_content (rows (db s)))
      \<and> distinct (map row_id (rows (db s)))
      \<and> map docId (FAISS_index s) = map row_id (rows (db s)))"

section \<open>Orders on scores\<close>

text \<open>The order of the numbers that are not \<open>NaN\<close>.\<close>

fun js_le :: "jsnum \<Rightarrow> jsnum \<Rightarrow> bool" where
  "js_le NaN _ = False"
| "js_le _ NaN = False"
| "js_le NInf _ = True"
| "js_le _ PInf = True"
| "js_le (Fin x) (Fin y) = (x \<le> y)"
| "js_le _ _ = False"

text \<open>\<open>a\<close> may stand before \<open>b\<close> in a list of non-increasing score.\<close>

definition descending :: "scored \<Rightarrow> scored \<Rightarrow> bool" where
  "descending a b = js_le (score b) (score a)"

text \<open>The same for the hits of the handler of \<open>/search\<close>.\<close>

definition hdescending :: "hit \<Rightarrow> hit \<Rightarrow> bool" where
  "hdescending a b = js_le (hscore b) (hscore a)"

text \<open>
  \<open>a\<close> stands before \<open>b\<close> in the order of the specification: the higher score first, and
  of two equal scores the lower id first.
\<close>

definition ranked :: "scored \<Rightarrow> scored \<Rightarrow> bool" where
  "ranked a b =
     ((js_le (score b) (score a) \<and> score a \<noteq> score b) \<or>
      (score a = score b \<and> sdocId a < sdocId b))"

section \<open>Lemmas on numbers and sorting\<close>

lemma js_pos_sub: "a \<noteq> NaN \<Longrightarrow> b \<noteq> NaN \<Longrightarrow> js_pos (js_sub b a) = (\<not> js_le b a)"
  by (cases a; cases b) (auto simp: js_pos_def js_sub_def)

lemma js_le_trans: "js_le a b \<Longrightarrow> js_le b c \<Longrightarrow> js_le a c"
  by (cases a; cases b; cases c) auto

lemma js_le_total: "a \<noteq> NaN \<Longrightarrow> b \<noteq> NaN \<Longrightarrow> js_le a b \<or> js_le b a"
  by (cases a; cases b) auto

lemma js_le_refl: "a \<noteq> NaN \<Longrightarrow> js_le a a"
  by (cases a) auto

lemma by_score_pos:
  "score a \<noteq> NaN \<Longrightarrow> score b \<noteq> NaN \<Longrightarrow>
   js_pos (by_score a b) = (\<not> js_le (score b) (score a))"
  by (simp add: by_score_def js_pos_sub)

lemma mset_insert_by: "mset (insert_by cmp x ys) = add_mset x (mset ys)"
  by (induction ys) auto

lemma mset_sort_by: "mset (sort_by cmp xs) = mset xs"
  unfolding sort_by_def by (induction xs) (auto simp: mset_insert_by)

lemma set_insert_by: "set (insert_by cmp x ys) = insert x (set ys)"
  by (induction ys) auto

lemma set_sort_by: "set (sort_by cmp xs) = set xs"
  unfolding sort_by_def by (induction xs) (auto simp: set_insert_by)

lemma length_sort_by: "length (sort_by cmp xs) = length xs"
  by (metis mset_sort_by size_mset)

lemma sort_by_Cons: "sort_by cmp (x # xs) = insert_by cmp x (sort_by cmp xs)"
  by (simp add: sort_by_def)

lemma descending_insert_by:
  assumes "sorted_wrt descending ys" "score x \<noteq> NaN" "\<forall>y\<in>set ys. score y \<noteq> NaN"
  shows "sorted_wrt descending (insert_by by_score x ys)"
  using assms
proof (induction ys)
  case Nil
  then show ?case by simp
next
  case (Cons y ys)
  show ?case
  proof (cases "js_pos (by_score x y)")
    case True
    then have "\<not> js_le (score y) (score x)"
      using Cons.prems by (simp add: by_score_pos)
    then have "js_le (score x) (score y)"
      using Cons.prems js_le_total[of "score x" "score y"] by auto
    then show ?thesis
      using True Cons by (auto simp: set_insert_by descending_def)
  next
    case False
    then have xy: "js_le (score y) (score x)"
      using Cons.prems by (simp add: by_score_pos)
    have "\<forall>z\<in>set ys. js_le (score z) (score x)"
      using Cons.prems(1) xy by (auto simp: descending_def intro: js_le_trans)
    then show ?thesis
      using False Cons.prems(1) xy by (auto simp: descending_def)
  qed
qed

lemma descending_sort_by:
  "\<forall>y\<in>set xs. score y \<noteq> NaN \<Longrightarrow> sorted_wrt descending (sort_by by_score xs)"
proof (induction xs)
  case Nil
  then show ?case by (simp add: sort_by_def)
next
  case (Cons x xs)
  then show ?case
    by (simp add: sort_by_Cons descending_insert_by set_sort_by)
qed

text \<open>
  When the new element's id is below every id of the sorted list, it lands before the
  elements of its own score: the order of the specification is kept.
\<close>

lemma ranked_insert_by:
  assumes "sorted_wrt ranked ys" "score x \<noteq> NaN" "\<forall>y\<in>set ys. score y \<noteq> NaN"
    "\<forall>y\<in>set ys. sdocId x < sdocId y"
  shows "sorted_wrt ranked (insert_by by_score x ys)"
  using assms
proof (induction ys)
  case Nil
  then show ?case by simp
next
  case (Cons y ys)
  show ?case
  proof (cases "js_pos (by_score x y)")
    case True
    then have n: "\<not> js_le (score y) (score x)"
      using Cons.prems by (simp add: by_score_pos)
    then have "js_le (score x) (score y)"
      using Cons.prems js_le_total[of "score x" "score y"] by auto
    with n have "ranked y x"
      using Cons.prems by (auto simp: ranked_def js_le_refl)
    then show ?thesis
      using True Cons by (auto simp: set_insert_by)
  next
    case False
    then have xy: "js_le (score y) (score x)"
      using Cons.prems by (simp add: by_score_pos)
    have "\<forall>z\<in>set ys. js_le (score z) (score y)"
      using Cons.prems(1) by (auto simp: ranked_def js_le_refl Cons.prems(3))
    then have "\<forall>z\<in>set ys. js_le (score z) (score x)"
      using xy by (auto intro: js_le_trans)
    then have "\<forall>z\<in>set (y # ys). ranked x z"
      using xy Cons.prems(4) by (auto simp: ranked_def)
    then show ?thesis
      using False Cons.prems(1) by auto
  qed
qed

lemma ranked_sort_by:
  "\<forall>y\<in>set xs. score y \<noteq> NaN \<Longrightarrow> sorted_wrt (<) (map sdocId xs) \<Longrightarrow>
   sorted_wrt ranked (sort_by by_score xs)"
proof (induction xs)
  case Nil
  then show ?case by (simp add: sort_by_def)
next
  case (Cons x xs)
  then show ?case
    by (auto simp add: sort_by_Cons ranked_insert_by set_sort_by)
qed

text \<open>Stability: the elements of one score keep the order they had in the array.\<close>

lemma filter_insert_by_other: "\<not> P x \<Longrightarrow> filter P (insert_by cmp x ys) = filter P ys"
  by (induction ys) auto

lemma filter_insert_by_same:
  assumes "score x = s" "s \<noteq> NaN" "\<forall>y\<in>set ys. score y \<noteq> NaN"
  shows "filter (\<lambda>r. score r = s) (insert_by by_score x ys) = x # filter (\<lambda>r. score r = s) ys"
  using assms
proof (induction ys)
  case Nil
  then show ?case by simp
next
  case (Cons y ys)
  show ?case
  proof (cases "js_pos (by_score x y)")
    case True
    then have "\<not> js_le (score y) (score x)"
      using Cons.prems by (simp add: by_score_pos)
    then have "score y \<noteq> s"
      using Cons.prems js_le_refl by auto
    then show ?thesis
      using True Cons by auto
  next
    case False
    then show ?thesis
      using Cons.prems by auto
  qed
qed

lemma stable_sort_by:
  assumes "\<forall>y\<in>set xs. score y \<noteq> NaN"
  shows "filter (\<lambda>r. score r = s) (sort_by by_score xs) = filter (\<lambda>r. score r = s) xs"
  using assms
proof (induction xs)
  case Nil
  then show ?case by (simp add: sort_by_def)
next
  case (Cons x xs)
  show ?case
  proof (cases "score x = s")
    case True
    then show ?thesis
      using Cons by (simp add: sort_by_Cons filter_insert_by_same set_sort_by)
  next
    case False
    then show ?thesis
      using Cons by (simp add: sort_by_Cons filter_insert_by_other)
  qed
qed

lemma slice0_all: "int (length xs) \<le> k \<Longrightarrow> slice0 xs k = xs"
  by (simp add: slice0_def)

lemma slice0_negative: "slice0 xs (- int (Suc n)) = take (length xs - Suc n) xs"
proof -
  have "nat (max (int (length xs) + (- 1 - int n)) 0) = length xs - Suc n"
    by linarith
  then show ?thesis
    by (simp add: slice0_def)
qed

lemma sorted_wrt_slice0: "sorted_wrt P xs \<Longrightarrow> sorted_wrt P (slice0 xs k)"
  by (simp add: slice0_def sorted_wrt_take)

lemma FAISS_search_eq: "FAISS_search index q k = slice0 (sort_by by_score (FAISS_results index q)) k"
  by (cases index) (simp_all add: FAISS_search_def FAISS_results_def sort_by_def slice0_def)

lemma FAISS_results_ids: "map sdocId (FAISS_results ix q) = map docId ix"
  by (simp add: FAISS_results_def comp_def)

lemma FAISS_resultsA_ids:
  "FAISS_resultsA ix q = Inr results \<Longrightarrow> map sdocId results = map docId ix"
  unfolding FAISS_resultsA_def
proof (induction ix arbitrary: results)
  case Nil
  then show ?case by simp
next
  case (Cons e ix)
  then show ?case by (auto split: sum.splits)
qed

lemma FAISS_searchA_eq:
  "FAISS_resultsA ix q = Inr results \<Longrightarrow>
   FAISS_searchA ix q k = Inr (slice0 (sort_by by_score results) k)"
  by (cases ix) (auto simp: FAISS_searchA_def FAISS_resultsA_def sort_by_def slice0_def)

section \<open>Ranking (claim C1)\<close>

text \<open>
  Claim C1 says that \<open>search\<close> returns the pairs in strictly descending score, ties broken
  by ascending id, and all entries when \<open>k\<close> is at least the size of the index. The code
  sorts by the score alone, with a stable sort: two entries of one score come out in the
  order in which they were added. The index below holds id 2 before id 1, with equal
  vectors; the result lists id 2 first.
\<close>

theorem C1_ties_counterexample:
  "FAISS_search [\<lparr>vector = [Fin 1], docId = 2\<rparr>, \<lparr>vector = [Fin 1], docId = 1\<rparr>] [Fin 1] 2
     = [\<lparr>sdocId = 2, score = Fin 1\<rparr>, \<lparr>sdocId = 1, score = Fin 1\<rparr>]
   \<and> \<not> sorted_wrt ranked
        (FAISS_search [\<lparr>vector = [Fin 1], docId = 2\<rparr>, \<lparr>vector = [Fin 1], docId = 1\<rparr>]
           [Fin 1] 2)"
  by (simp add: FAISS_search_def FAISS_results_def cosineSimilarity_def dotProduct_def
      magnitude_def at_index_def js_sq_def sort_by_def by_score_def js_sub_def js_pos_def
      slice0_def enumerate_eq_zip ranked_def)

text \<open>
  Claim C1, amended. \<open>FAISS.search\<close> of server.js returns a prefix of the full ranking,
  and the full ranking (\<open>k\<close> at least the size of the index) holds every entry once.
  When no score is \<open>NaN\<close>, the result is in non-increasing score, the entries of one
  score stand in the order of the index, and so, when the index holds its entries in
  ascending id (the order in which the server adds them), ties are in ascending id.
  \<open>FAISS.search\<close> of serverArray.js, when \<open>math.dot\<close> does not throw, returns a list with
  the same properties.
\<close>

theorem C1_FAISS_search_order:
  "FAISS_search ix q k = slice0 (FAISS_search ix q (int (length ix))) k
   \<and> (int (length ix) \<le> k \<longrightarrow> mset (FAISS_search ix q k) = mset (FAISS_results ix q))
   \<and> ((\<forall>r\<in>set (FAISS_results ix q). score r \<noteq> NaN) \<longrightarrow>
         sorted_wrt descending (FAISS_search ix q k)
       \<and> (\<forall>sc. filter (\<lambda>r. score r = sc) (FAISS_search ix q (int (length ix)))
               = filter (\<lambda>r. score r = sc) (FAISS_results ix q))
       \<and> (sorted_wrt (<) (map docId ix) \<longrightarrow> sorted_wrt ranked (FAISS_search ix q k)))
   \<and> (\<forall>results. FAISS_resultsA ix q = Inr results \<longrightarrow>
         (\<exists>rs. FAISS_searchA ix q k = Inr rs
            \<and> (int (length ix) \<le> k \<longrightarrow> mset rs = mset results)
            \<and> ((\<forall>r\<in>set results. score r \<noteq> NaN) \<longrightarrow>
                  sorted_wrt descending rs
                \<and> (sorted_wrt (<) (map docId ix) \<longrightarrow> sorted_wrt ranked rs))))"
proof -
  let ?rs = "FAISS_results ix q"
  have len: "length ?rs = length ix"
    by (simp add: FAISS_results_def)
  have full: "FAISS_search ix q (int (length ix)) = sort_by by_score ?rs"
    by (simp add: FAISS_search_eq slice0_all length_sort_by len)
  have a: "FAISS_search ix q k = slice0 (FAISS_search ix q (int (length ix))) k"
    unfolding full by (rule FAISS_search_eq)
  have b: "int (length ix) \<le> k \<longrightarrow> mset (FAISS_search ix q k) = mset ?rs"
    by (simp add: FAISS_search_eq slice0_all length_sort_by len mset_sort_by)
  have c: "sorted_wrt descending (FAISS_search ix q k)"
    if "\<forall>r\<in>set ?rs. score r \<noteq> NaN"
    using that by (simp add: FAISS_search_eq sorted_wrt_slice0 descending_sort_by)
  have d: "filter (\<lambda>r. score r = sc) (FAISS_search ix q (int (length ix)))
             = filter (\<lambda>r. score r = sc) ?rs"
    if "\<forall>r\<in>set ?rs. score r \<noteq> NaN" for sc
    using that by (simp add: full stable_sort_by)
  have e: "sorted_wrt ranked (FAISS_search ix q k)"
    if "\<forall>r\<in>set ?rs. score r \<noteq> NaN" "sorted_wrt (<) (map docId ix)"
    using that
    by (simp add: FAISS_search_eq sorted_wrt_slice0 ranked_sort_by FAISS_results_ids)
  have f: "\<exists>rs. FAISS_searchA ix q k = Inr rs
            \<and> (int (length ix) \<le> k \<longrightarrow> mset rs = mset results)
            \<and> ((\<forall>r\<in>set results. score r \<noteq> NaN) \<longrightarrow>
                  sorted_wrt descending rs
                \<and> (sorted_wrt (<) (map docId ix) \<longrightarrow> sorted_wrt ranked rs))"
    if r: "FAISS_resultsA ix q = Inr results" for results
  proof -
    have ids: "map sdocId results = map docId ix"
      using r by (rule FAISS_resultsA_ids)
    then have "length results = length ix"
      by (metis length_map)
    then have "int (length ix) \<le> k \<longrightarrow>
               mset (slice0 (sort_by by_score results) k) = mset results"
      by (simp add: slice0_all length_sort_by mset_sort_by)
    moreover have "(\<forall>r\<in>set results. score r \<noteq> NaN) \<longrightarrow>
        sorted_wrt descending (slice0 (sort_by by_score results) k)
        \<and> (sorted_wrt (<) (map docId ix) \<longrightarrow>
             sorted_wrt ranked (slice0 (sort_by by_score results) k))"
      by (simp add: sorted_wrt_slice0 descending_sort_by ranked_sort_by ids)
    ultimately show ?thesis
      using FAISS_searchA_eq[OF r, of k] by blast
  qed
  from a b c d e f show ?thesis by blast
qed

theorem C1_FAISS_search_order_witness:
  "FAISS_results
     [\<lparr>vector = [Fin 1, Fin 0], docId = 1\<rparr>, \<lparr>vector = [Fin 0, Fin 1], docId = 2\<rparr>,
      \<lparr>vector = [Fin 1, Fin 0], docId = 3\<rparr>] [Fin 1, Fin 0]
     = [\<lparr>sdocId = 1, score = Fin 1\<rparr>, \<lparr>sdocId = 2, score = Fin 0\<rparr>,
        \<lparr>sdocId = 3, score = Fin 1\<rparr>]
   \<and> FAISS_search
     [\<lparr>vector = [Fin 1, Fin 0], docId = 1\<rparr>, \<lparr>vector = [Fin 0, Fin 1], docId = 2\<rparr>,
      \<lparr>vector = [Fin 1, Fin 0], docId = 3\<rparr>] [Fin 1, Fin 0] 3
     = [\<lparr>sdocId = 1, score = Fin 1\<rparr>, \<lparr>sdocId = 3, score = Fin 1\<rparr>,
        \<lparr>sdocId = 2, score = Fin 0\<rparr>]
   \<and> sorted_wrt ranked (FAISS_search
     [\<lparr>vector = [Fin 1, Fin 0], docId = 1\<rparr>, \<lparr>vector = [Fin 0, Fin 1], docId = 2\<rparr>,
      \<lparr>vector = [Fin 1, Fin 0], docId = 3\<rparr>] [Fin 1, Fin 0] 3)
   \<and> FAISS_searchA
     [\<lparr>vector = [Fin 1, Fin 0], docId = 1\<rparr>, \<lparr>vector = [Fin 0, Fin 1], docId = 2\<rparr>,
      \<lparr>vector = [Fin 1, Fin 0], docId = 3\<rparr>] [Fin 1, Fin 0] 3
     = Inr [\<lparr>sdocId = 1, score = Fin 1\<rparr>, \<lparr>sdocId = 3, score = Fin 1\<rparr>,
        \<lparr>sdocId = 2, score = Fin 0\<rparr>]"
proof -
  let ?ix = "[\<lparr>vector = [Fin 1, Fin 0], docId = 1\<rparr>, \<lparr>vector = [Fin 0, Fin 1], docId = 2\<rparr>,
      \<lparr>vector = [Fin 1, Fin 0], docId = 3\<rparr>]"
  let ?q = "[Fin 1, Fin 0]"
  have r: "FAISS_results ?ix ?q
     = [\<lparr>sdocId = 1, score = Fin 1\<rparr>, \<lparr>sdocId = 2, score = Fin 0\<rparr>,
        \<lparr>sdocId = 3, score = Fin 1\<rparr>]"
    by (simp add: FAISS_results_def cosineSimilarity_def dotProduct_def magnitude_def
        at_index_def js_sq_def enumerate_eq_zip)
  have s: "FAISS_search ?ix ?q 3
     = [\<lparr>sdocId = 1, score = Fin 1\<rparr>, \<lparr>sdocId = 3, score = Fin 1\<rparr>,
        \<lparr>sdocId = 2, score = Fin 0\<rparr>]"
    by (simp add: FAISS_search_def FAISS_results_def cosineSimilarity_def dotProduct_def
        magnitude_def at_index_def js_sq_def enumerate_eq_zip sort_by_def by_score_def
        js_sub_def js_pos_def slice0_def)
  have ra: "FAISS_resultsA ?ix ?q
     = Inr [\<lparr>sdocId = 1, score = Fin 1\<rparr>, \<lparr>sdocId = 2, score = Fin 0\<rparr>,
        \<lparr>sdocId = 3, score = Fin 1\<rparr>]"
    by (simp add: FAISS_resultsA_def cosineSimilarityA_def math_dot_def math_norm_def js_sq_def)
  have sa: "FAISS_searchA ?ix ?q 3
     = Inr [\<lparr>sdocId = 1, score = Fin 1\<rparr>, \<lparr>sdocId = 3, score = Fin 1\<rparr>,
        \<lparr>sdocId = 2, score = Fin 0\<rparr>]"
    by (simp add: FAISS_searchA_def FAISS_resultsA_def cosineSimilarityA_def math_dot_def
        math_norm_def js_sq_def sort_by_def by_score_def js_sub_def js_pos_def slice0_def)
  have h1: "\<forall>r\<in>set (FAISS_results ?ix ?q). score r \<noteq> NaN"
    unfolding r by simp
  have h2: "sorted_wrt (<) (map docId ?ix)"
    by simp
  have "sorted_wrt ranked (FAISS_search ?ix ?q 3)"
    using C1_FAISS_search_order[of ?ix ?q 3] h1 h2 by blast
  with r s sa show ?thesis by blast
qed

section \<open>Empty index and small k (claim C5)\<close>

text \<open>
  Claim C5 says that \<open>search\<close> returns the empty sequence on an empty index, and on every
  index when \<open>k \<le> 0\<close>. \<open>slice(0, k)\<close> with a negative \<open>k\<close> drops entries from the end
  instead: with two entries and \<open>k = -1\<close> the result holds one entry.
\<close>

theorem C5_negative_k_counterexample:
  "FAISS_search [\<lparr>vector = [Fin 1], docId = 1\<rparr>, \<lparr>vector = [Fin 1], docId = 2\<rparr>] [Fin 1] (- 1)
     = [\<lparr>sdocId = 1, score = Fin 1\<rparr>]"
  by (simp add: FAISS_search_def FAISS_results_def cosineSimilarity_def dotProduct_def
      magnitude_def at_index_def js_sq_def sort_by_def by_score_def js_sub_def js_pos_def
      slice0_def enumerate_eq_zip)

text \<open>
  Claim C5, amended. On an empty index \<open>search\<close> returns the empty sequence for every
  \<open>k\<close> (in server.js and in serverArray.js); on every index it returns the empty sequence for \<open>k = 0\<close>; for a negative
  \<open>k = -(n + 1)\<close> it returns the full ranking without its last \<open>n + 1\<close> entries, which is
  empty only when the index holds at most \<open>n + 1\<close> entries.
\<close>

theorem C5_FAISS_search_small_k:
  "FAISS_search [] q k = []
   \<and> FAISS_searchA [] q k = Inr []
   \<and> FAISS_search ix q 0 = []
   \<and> FAISS_search ix q (- int (Suc n))
       = take (length ix - Suc n) (FAISS_search ix q (int (length ix)))
   \<and> length (FAISS_search ix q (- int (Suc n))) = length ix - Suc n"
proof -
  have len: "length (sort_by by_score (FAISS_results ix q)) = length ix"
    by (simp add: length_sort_by FAISS_results_def)
  have full: "FAISS_search ix q (int (length ix)) = sort_by by_score (FAISS_results ix q)"
    by (simp add: FAISS_search_eq slice0_all len)
  have neg: "FAISS_search ix q (- int (Suc n))
       = take (length ix - Suc n) (FAISS_search ix q (int (length ix)))"
    unfolding full by (simp only: FAISS_search_eq slice0_negative len)
  have "FAISS_search [] q k = []"
    by (simp add: FAISS_search_def)
  moreover have "FAISS_searchA [] q k = Inr []"
    by (simp add: FAISS_searchA_def)
  moreover have "FAISS_search ix q 0 = []"
    by (simp add: FAISS_search_eq slice0_def)
  moreover have "length (FAISS_search ix q (- int (Suc n))) = length ix - Suc n"
    unfolding neg full by (simp add: len)
  ultimately show ?thesis using neg by blast
qed

section \<open>Vectors of magnitude zero (claim C4)\<close>

text \<open>The \<open>cosineSimilarity\<close> of the handler of \<open>/search\<close> guards the division.\<close>

lemma cosineSimilarity_search_zero:
  "magnitude vecA = Fin 0 \<or> magnitude vecB = Fin 0 \<Longrightarrow>
   cosineSimilarity_search vecA vecB = Fin 0"
  by (auto simp: cosineSimilarity_search_def)


text \<open>
  Claim C4 says that an entry whose vector, or whose query, has magnitude zero gets the
  score 0 and stays in the result. The \<open>cosineSimilarity\<close> inside the handler of
  \<open>/search\<close> in server.js does so (\<open>magnitudeA && magnitudeB ? ... : 0\<close>); the one inside
  \<open>FAISS.search\<close>, in server.js and in serverArray.js, divides \<open>0\<close> by \<open>0\<close>: the entry
  stays in the result with the score \<open>NaN\<close>.
\<close>

theorem C4_zero_magnitude_NaN:
  "FAISS_search [\<lparr>vector = [Fin 0, Fin 0], docId = 1\<rparr>] [Fin 1, Fin 0] 1
     = [\<lparr>sdocId = 1, score = NaN\<rparr>]
   \<and> FAISS_searchA [\<lparr>vector = [Fin 0, Fin 0], docId = 1\<rparr>] [Fin 1, Fin 0] 1
     = Inr [\<lparr>sdocId = 1, score = NaN\<rparr>]
   \<and> cosineSimilarity_search [Fin 1, Fin 0] [Fin 0, Fin 0] = Fin 0"
  by (simp add: FAISS_search_def FAISS_results_def cosineSimilarity_def dotProduct_def
      magnitude_def at_index_def js_sq_def sort_by_def slice0_def enumerate_eq_zip
      FAISS_searchA_def FAISS_resultsA_def cosineSimilarityA_def math_dot_def math_norm_def
      cosineSimilarity_search_def)

section \<open>Resynchronisation (claim C3)\<close>

lemma fold_FAISS_add:
  "fold (\<lambda>row ix. FAISS_add (f row) (g row) ix) rws ix0
     = ix0 @ map (\<lambda>row. \<lparr>vector = f row, docId = g row\<rparr>) rws"
  by (induction rws arbitrary: ix0) (simp_all add: FAISS_add_def)

lemma fold_FAISS_addA:
  "fold (\<lambda>row ix. FAISS_addA (f row) (g row) ix) rws ix0
     = ix0 @ map (\<lambda>row. \<lparr>vector = slice_ALENGTH (f row), docId = g row\<rparr>) rws"
  by (induction rws arbitrary: ix0) (simp_all add: FAISS_addA_def)

text \<open>
  Claim C3 says that \<open>resync\<close> first clears the index, so that running it twice leaves the
  index as one run does, with the same search results. \<open>synchronizeFAISS\<close> does not clear
  the index: it only calls \<open>FAISS.add\<close>. With one row in the store and an empty index,
  a search after two runs returns the document twice, after one run once.
\<close>

theorem C3_resync_twice_counterexample:
  "FAISS_search (FAISS_index (synchronizeFAISS (synchronizeFAISS
      \<lparr>db = \<lparr>rows = [\<lparr>row_id = 1, row_content = ''a'', row_vector = [Fin 1]\<rparr>],
              seq = 1, last_insert_rowid = 0, io_error = None\<rparr>,
       FAISS_index = []\<rparr>))) [Fin 1] 2
    = [\<lparr>sdocId = 1, score = Fin 1\<rparr>, \<lparr>sdocId = 1, score = Fin 1\<rparr>]
  \<and> FAISS_search (FAISS_index (synchronizeFAISS
      \<lparr>db = \<lparr>rows = [\<lparr>row_id = 1, row_content = ''a'', row_vector = [Fin 1]\<rparr>],
              seq = 1, last_insert_rowid = 0, io_error = None\<rparr>,
       FAISS_index = []\<rparr>)) [Fin 1] 2
    = [\<lparr>sdocId = 1, score = Fin 1\<rparr>]"
  by (simp add: synchronizeFAISS_def select_all_def FAISS_add_def fromBuffer_def
      FAISS_search_def FAISS_results_def cosineSimilarity_def dotProduct_def
      magnitude_def at_index_def js_sq_def sort_by_def by_score_def js_sub_def js_pos_def
      slice0_def enumerate_eq_zip)

text \<open>
  Claim C3, amended. \<open>synchronizeFAISS\<close> leaves the store as it is and appends to the
  index, whatever the index holds, one entry per row of the store, in the order of the
  rows: the row's id with the vector read from its blob (in serverArray.js, with the first
  \<open>ALENGTH\<close> components of it). When the store reports an error it appends nothing. Run
  twice in succession, it appends every entry twice.
\<close>

theorem C3_synchronizeFAISS_appends:
  "synchronizeFAISS s
     = s\<lparr>FAISS_index := FAISS_index s @
          (case io_error (db s) of
             Some msg \<Rightarrow> []
           | None \<Rightarrow> map (\<lambda>row. \<lparr>vector = fromBuffer (row_vector row), docId = row_id row\<rparr>)
                       (rows (db s)))\<rparr>
   \<and> synchronizeFAISS (synchronizeFAISS s)
     = s\<lparr>FAISS_index := FAISS_index s @
          (case io_error (db s) of
             Some msg \<Rightarrow> []
           | None \<Rightarrow> map (\<lambda>row. \<lparr>vector = fromBuffer (row_vector row), docId = row_id row\<rparr>)
                       (rows (db s))
                     @ map (\<lambda>row. \<lparr>vector = fromBuffer (row_vector row), docId = row_id row\<rparr>)
                       (rows (db s)))\<rparr>
   \<and> synchronizeFAISSA s
     = s\<lparr>FAISS_index := FAISS_index s @
          (case io_error (db s) of
             Some msg \<Rightarrow> []
           | None \<Rightarrow> map (\<lambda>row. \<lparr>vector = slice_ALENGTH (slice_ALENGTH (fromBuffer (row_vector row))),
                                 docId = row_id row\<rparr>)
                       (rows (db s)))\<rparr>"
proof -
  have once: "synchronizeFAISS s
     = s\<lparr>FAISS_index := FAISS_index s @
          (case io_error (db s) of
             Some msg \<Rightarrow> []
           | None \<Rightarrow> map (\<lambda>row. \<lparr>vector = fromBuffer (row_vector row), docId = row_id row\<rparr>)
                       (rows (db s)))\<rparr>"
    by (cases "io_error (db s)")
       (simp_all add: synchronizeFAISS_def select_all_def fold_FAISS_add)
  have twice: "synchronizeFAISS (synchronizeFAISS s)
     = s\<lparr>FAISS_index := FAISS_index s @
          (case io_error (db s) of
             Some msg \<Rightarrow> []
           | None \<Rightarrow> map (\<lambda>row. \<lparr>vector = fromBuffer (row_vector row), docId = row_id row\<rparr>)
                       (rows (db s))
                     @ map (\<lambda>row. \<lparr>vector = fromBuffer (row_vector row), docId = row_id row\<rparr>)
                       (rows (db s)))\<rparr>"
    by (cases "io_error (db s)")
       (simp_all add: synchronizeFAISS_def select_all_def fold_FAISS_add)
  have array: "synchronizeFAISSA s
     = s\<lparr>FAISS_index := FAISS_index s @
          (case io_error (db s) of
             Some msg \<Rightarrow> []
           | None \<Rightarrow> map (\<lambda>row. \<lparr>vector = slice_ALENGTH (slice_ALENGTH (fromBuffer (row_vector row))),
                                 docId = row_id row\<rparr>)
                       (rows (db s)))\<rparr>"
    by (cases "io_error (db s)")
       (simp_all add: synchronizeFAISSA_def select_all_def select_count_def fold_FAISS_addA)
  from once twice array show ?thesis by blast
qed

section \<open>Adding a document twice (claim C2)\<close>

lemma fold_max_ge: "a \<le> fold max xs (a::nat)"
  by (induction xs arbitrary: a) (auto intro: order_trans[OF max.cobounded2])

lemma fold_max_upper: "x \<in> set xs \<Longrightarrow> x \<le> fold max xs (a::nat)"
proof (induction xs arbitrary: a)
  case Nil
  then show ?case by simp
next
  case (Cons y ys)
  show ?case
  proof (cases "x = y")
    case True
    have "max y a \<le> fold max ys (max y a)"
      by (rule fold_max_ge)
    then show ?thesis
      using True by simp
  next
    case False
    then show ?thesis
      using Cons by simp
  qed
qed

text \<open>The id of a new row is above every id of the table.\<close>

lemma next_id_fresh: "r \<in> set (rows d) \<Longrightarrow> row_id r < next_id d"
  using fold_max_upper[of "row_id r" "map row_id (rows d)" "seq d"]
  by (simp add: next_id_def less_Suc_eq_le)

lemma next_id_notin: "next_id d \<notin> set (map row_id (rows d))"
proof
  assume "next_id d \<in> set (map row_id (rows d))"
  then obtain r where "r \<in> set (rows d)" "row_id r = next_id d"
    by auto
  then show False
    using next_id_fresh[of r d] by simp
qed

text \<open>An insert, ignored or not, moves the counter on: no id is handed out twice.\<close>

lemma next_id_above_seq: "seq d < next_id d"
  using fold_max_ge[of "seq d" "map row_id (rows d)"] by (simp add: next_id_def less_Suc_eq_le)

lemma insert_or_ignore_seq:
  "insert_or_ignore d c v = Inr (this, d') \<Longrightarrow> seq d' = next_id d \<and> seq d < seq d'"
  using next_id_above_seq[of d]
  by (auto simp: insert_or_ignore_def split: option.splits if_splits)

lemma post_add_existing:
  assumes "io_error (db s) = None" "c \<noteq> []" "openai c = Inr v"
    "c \<in> set (map row_content (rows (db s)))"
  shows "post_add openai (Some c) s =
    (Reply 200 (Message ''Document already exists.''),
     s\<lparr>db := (db s)\<lparr>seq := next_id (db s)\<rparr>\<rparr>)"
  using assms by (simp add: post_add_def getEmbeddings_def insert_or_ignore_def)

lemma post_add_new:
  assumes "io_error (db s) = None" "c \<noteq> []" "openai c = Inr v"
    "c \<notin> set (map row_content (rows (db s)))"
  shows "post_add openai (Some c) s =
    (Reply 200 (Added ''Document added.'' (next_id (db s))),
     s\<lparr>db := (db s)\<lparr>rows := rows (db s) @
                 [\<lparr>row_id = next_id (db s), row_content = c, row_vector = toBuffer v\<rparr>],
               seq := next_id (db s), last_insert_rowid := next_id (db s)\<rparr>,
       FAISS_index := FAISS_index s @ [\<lparr>vector = v, docId = next_id (db s)\<rparr>]\<rparr>)"
  using assms by (simp add: post_add_def getEmbeddings_def insert_or_ignore_def FAISS_add_def)

lemma once_in_rows:
  assumes "distinct (map row_content rws)" "c \<in> set (map row_content rws)"
  shows "\<exists>r. filter (\<lambda>r. row_content r = c) rws = [r]"
  using assms
proof (induction rws)
  case Nil
  then show ?case by simp
next
  case (Cons a rws)
  show ?case
  proof (cases "row_content a = c")
    case True
    then have "\<forall>r\<in>set rws. row_content r \<noteq> c"
      using Cons.prems(1) by (auto simp: image_iff)
    then have "filter (\<lambda>r. row_content r = c) rws = []"
      by (simp add: filter_empty_conv)
    then show ?thesis
      using True by simp
  next
    case False
    then show ?thesis
      using Cons by auto
  qed
qed

lemma once_in_distinct:
  assumes "distinct ids" "i \<in> set ids"
  shows "length (filter (\<lambda>j. j = i) ids) = 1"
  using assms
proof (induction ids)
  case Nil
  then show ?case by simp
next
  case (Cons a ids)
  show ?case
  proof (cases "a = i")
    case True
    then have "filter (\<lambda>j. j = i) ids = []"
      using Cons.prems(1) by (auto simp: filter_empty_conv)
    then show ?thesis
      using True by simp
  next
    case False
    then show ?thesis
      using Cons by auto
  qed
qed

lemma one_entry_per_row:
  assumes "consistent s" "r \<in> set (rows (db s))"
  shows "length (filter (\<lambda>e. docId e = row_id r) (FAISS_index s)) = 1"
proof -
  have "length (filter (\<lambda>e. docId e = row_id r) (FAISS_index s))
        = length (filter (\<lambda>j. j = row_id r) (map docId (FAISS_index s)))"
    by (simp add: filter_map comp_def)
  also have "\<dots> = length (filter (\<lambda>j. j = row_id r) (map row_id (rows (db s))))"
    using assms(1) by (simp add: consistent_def)
  also have "\<dots> = 1"
    using assms by (intro once_in_distinct) (auto simp: consistent_def)
  finally show ?thesis .
qed

lemma consistent_after_new:
  assumes "consistent s" "c \<notin> set (map row_content (rows (db s)))"
  shows "consistent
     (s\<lparr>db := (db s)\<lparr>rows := rows (db s) @
                 [\<lparr>row_id = next_id (db s), row_content = c, row_vector = b\<rparr>],
               seq := next_id (db s), last_insert_rowid := next_id (db s)\<rparr>,
       FAISS_index := FAISS_index s @ [\<lparr>vector = v, docId = next_id (db s)\<rparr>]\<rparr>)"
  using assms next_id_notin[of "db s"] by (simp add: consistent_def)

lemma consistent_after_ignored:
  "consistent s \<Longrightarrow> consistent (s\<lparr>db := (db s)\<lparr>seq := n\<rparr>\<rparr>)"
  by (simp add: consistent_def)

text \<open>
  The state of the server at start is consistent once \<open>synchronizeFAISS\<close> has run on the
  empty index, and \<open>/add\<close> keeps it so.
\<close>

lemma consistent_at_start:
  assumes "distinct (map row_content (rows d))" "distinct (map row_id (rows d))"
    "io_error d = None"
  shows "consistent (synchronizeFAISS \<lparr>db = d, FAISS_index = []\<rparr>)"
  using assms
  by (simp add: consistent_def synchronizeFAISS_def select_all_def fold_FAISS_add comp_def)

lemma consistent_post_add:
  assumes "consistent s"
  shows "consistent (snd (post_add openai body_content s))"
proof (cases "\<exists>c v. body_content = Some c \<and> c \<noteq> [] \<and> openai c = Inr v \<and> io_error (db s) = None")
  case True
  then obtain c v where h: "body_content = Some c" "c \<noteq> []" "openai c = Inr v"
    "io_error (db s) = None"
    by blast
  show ?thesis
  proof (cases "c \<in> set (map row_content (rows (db s)))")
    case True
    then show ?thesis
      using post_add_existing[of s c openai v] h consistent_after_ignored[OF assms] by simp
  next
    case False
    then show ?thesis
      using post_add_new[of s c openai v] h consistent_after_new[OF assms False] by simp
  qed
next
  case False
  then have "snd (post_add openai body_content s) = s"
    by (auto simp: post_add_def getEmbeddings_def insert_or_ignore_def
        split: option.splits sum.splits)
  then show ?thesis
    using assms by simp
qed

text \<open>
  The id an ignored insert took is not handed out again: after the same content twice,
  the next new document gets the id 3.
\<close>

lemma ignored_insert_skips_an_id:
  "fst (post_add (\<lambda>t. Inr [Fin 1]) (Some ''b'')
     (snd (post_add (\<lambda>t. Inr [Fin 1]) (Some ''a'')
        (snd (post_add (\<lambda>t. Inr [Fin 1]) (Some ''a'')
           \<lparr>db = \<lparr>rows = [], seq = 0, last_insert_rowid = 0, io_error = None\<rparr>,
            FAISS_index = []\<rparr>)))))
   = Reply 200 (Added ''Document added.'' 3)"
  by (simp add: post_add_def getEmbeddings_def insert_or_ignore_def next_id_def FAISS_add_def)

text \<open>
  Claim C2. Two calls of \<open>/add\<close> in sequence with the same content, in a consistent state
  of the server, each with a non-empty content, an embedding from the provider (not
  necessarily the same one) and a store that reports no error: after them the store
  holds exactly one row of that content and the index exactly one entry of that row's
  id. The second call answers that the document already exists; it leaves the rows of
  the store and the index as the first call left them. The one thing it changes is the
  counter of \<open>AUTOINCREMENT\<close>, which keeps the id the ignored insert took.
\<close>

theorem C2_add_twice:
  assumes "consistent s" "io_error (db s) = None" "c \<noteq> []"
    "openai1 c = Inr v1" "openai2 c = Inr v2"
  shows "case post_add openai1 (Some c) s of (r1, s1) \<Rightarrow>
           (case post_add openai2 (Some c) s1 of (r2, s2) \<Rightarrow>
              r2 = Reply 200 (Message ''Document already exists.'')
              \<and> rows (db s2) = rows (db s1)
              \<and> FAISS_index s2 = FAISS_index s1
              \<and> s2 = s1\<lparr>db := (db s1)\<lparr>seq := next_id (db s1)\<rparr>\<rparr>
              \<and> (\<exists>r. filter (\<lambda>r. row_content r = c) (rows (db s2)) = [r]
                    \<and> length (filter (\<lambda>e. docId e = row_id r) (FAISS_index s2)) = 1))"
proof -
  obtain r1 s1 where p1: "post_add openai1 (Some c) s = (r1, s1)"
    by (cases "post_add openai1 (Some c) s")
  have s1: "consistent s1 \<and> io_error (db s1) = None
            \<and> c \<in> set (map row_content (rows (db s1)))"
  proof (cases "c \<in> set (map row_content (rows (db s)))")
    case True
    then have "s1 = s\<lparr>db := (db s)\<lparr>seq := next_id (db s)\<rparr>\<rparr>"
      using post_add_existing[of s c openai1 v1] assms p1 by simp
    then show ?thesis
      using assms True by (simp add: consistent_def)
  next
    case False
    from post_add_new[of s c openai1 v1] assms False p1
    have e: "s1 = s\<lparr>db := (db s)\<lparr>rows := rows (db s) @
                 [\<lparr>row_id = next_id (db s), row_content = c, row_vector = toBuffer v1\<rparr>],
               seq := next_id (db s), last_insert_rowid := next_id (db s)\<rparr>,
       FAISS_index := FAISS_index s @ [\<lparr>vector = v1, docId = next_id (db s)\<rparr>]\<rparr>"
      by simp
    have "consistent s1"
      unfolding e using assms(1) False by (rule consistent_after_new)
    then show ?thesis
      using assms(2) by (simp add: e)
  qed
  define s2 where "s2 = s1\<lparr>db := (db s1)\<lparr>seq := next_id (db s1)\<rparr>\<rparr>"
  have p2: "post_add openai2 (Some c) s1
            = (Reply 200 (Message ''Document already exists.''), s2)"
    unfolding s2_def using post_add_existing[of s1 c openai2 v2] s1 assms by simp
  have same: "rows (db s2) = rows (db s1)" "FAISS_index s2 = FAISS_index s1"
    by (simp_all add: s2_def)
  from s1 obtain r where r: "filter (\<lambda>r. row_content r = c) (rows (db s1)) = [r]"
    using once_in_rows[of "rows (db s1)" c] by (auto simp: consistent_def)
  then have "r \<in> set (filter (\<lambda>r. row_content r = c) (rows (db s1)))"
    by simp
  then have "r \<in> set (rows (db s1))"
    by simp
  then have "length (filter (\<lambda>e. docId e = row_id r) (FAISS_index s1)) = 1"
    using s1 one_entry_per_row by blast
  then have "\<exists>r. filter (\<lambda>r. row_content r = c) (rows (db s2)) = [r]
               \<and> length (filter (\<lambda>e. docId e = row_id r) (FAISS_index s2)) = 1"
    using r same by auto
  then show ?thesis
    using p1 p2 same by (simp add: s2_def)
qed

theorem C2_add_twice_witness:
  "consistent
     \<lparr>db = \<lparr>rows = [], seq = 0, last_insert_rowid = 0, io_error = None\<rparr>, FAISS_index = []\<rparr>
   \<and> (case post_add (\<lambda>t. Inr [Fin 1, Fin 0]) (Some ''cats are mammals'')
            \<lparr>db = \<lparr>rows = [], seq = 0, last_insert_rowid = 0, io_error = None\<rparr>,
             FAISS_index = []\<rparr> of
        (r1, s1) \<Rightarrow>
          (case post_add (\<lambda>t. Inr [Fin 0, Fin 1]) (Some ''cats are mammals'') s1 of
             (r2, s2) \<Rightarrow>
               r1 = Reply 200 (Added ''Document added.'' 1)
               \<and> FAISS_index s1 = [\<lparr>vector = [Fin 1, Fin 0], docId = 1\<rparr>]
               \<and> seq (db s1) = 1
               \<and> r2 = Reply 200 (Message ''Document already exists.'')
               \<and> rows (db s2) = rows (db s1)
               \<and> FAISS_index s2 = FAISS_index s1
               \<and> seq (db s2) = 2
               \<and> (\<exists>r. filter (\<lambda>r. row_content r = ''cats are mammals'') (rows (db s2)) = [r]
                     \<and> length (filter (\<lambda>e. docId e = row_id r) (FAISS_index s2)) = 1)))"
proof -
  let ?s = "\<lparr>db = \<lparr>rows = [], seq = 0, last_insert_rowid = 0, io_error = None\<rparr>,
             FAISS_index = []\<rparr>"
  let ?s1 = "\<lparr>db = \<lparr>rows = [\<lparr>row_id = 1, row_content = ''cats are mammals'',
                             row_vector = toBuffer [Fin 1, Fin 0]\<rparr>],
                    seq = 1, last_insert_rowid = 1, io_error = None\<rparr>,
             FAISS_index = [\<lparr>vector = [Fin 1, Fin 0], docId = 1\<rparr>]\<rparr>"
  have c: "consistent ?s"
    by (simp add: consistent_def)
  have f: "post_add (\<lambda>t. Inr [Fin 1, Fin 0]) (Some ''cats are mammals'') ?s
           = (Reply 200 (Added ''Document added.'' 1), ?s1)"
    by (simp add: post_add_def getEmbeddings_def insert_or_ignore_def next_id_def FAISS_add_def)
  from C2_add_twice[of ?s "''cats are mammals''" "\<lambda>t. Inr [Fin 1, Fin 0]" "[Fin 1, Fin 0]"
      "\<lambda>t. Inr [Fin 0, Fin 1]" "[Fin 0, Fin 1]"] c
  have t: "case post_add (\<lambda>t. Inr [Fin 0, Fin 1]) (Some ''cats are mammals'') ?s1 of
      (r2, s2) \<Rightarrow>
              r2 = Reply 200 (Message ''Document already exists.'')
              \<and> rows (db s2) = rows (db ?s1)
              \<and> FAISS_index s2 = FAISS_index ?s1
              \<and> s2 = ?s1\<lparr>db := (db ?s1)\<lparr>seq := next_id (db ?s1)\<rparr>\<rparr>
              \<and> (\<exists>r. filter (\<lambda>r. row_content r = ''cats are mammals'') (rows (db s2)) = [r]
                    \<and> length (filter (\<lambda>e. docId e = row_id r) (FAISS_index s2)) = 1)"
    unfolding f by simp
  show ?thesis
    using c t unfolding f by (auto simp: split_beta next_id_def)
qed

section \<open>A failing embedding provider (claim C6)\<close>

text \<open>
  Claim C6. When the call of the embedding provider fails during \<open>/add\<close> (the content
  being non-empty, so that the provider is called), \<open>getEmbeddings\<close> throws, the handler
  answers with status 500, and neither the store nor the index changes: the state after
  the call is the state before it. The same holds of serverArray.js.
\<close>

theorem C6_provider_failure_writes_nothing:
  assumes "openai c = Inl e" "c \<noteq> []"
  shows "getEmbeddings openai c = Inl (Error ''Error calling OpenAI API getEmbeddings'')
    \<and> post_add openai (Some c) s = (Reply 500 (ErrorBody ''Error processing document.''), s)
    \<and> post_addA openai (Some c) s = (Reply 500 (ErrorBody ''Error processing document.''), s)"
  using assms by (simp add: getEmbeddings_def getEmbeddingsA_def post_add_def post_addA_def)

theorem C6_provider_failure_witness:
  "post_add (\<lambda>t. Inl (Error ''429'')) (Some ''new text'')
       \<lparr>db = \<lparr>rows = [\<lparr>row_id = 1, row_content = ''old text'', row_vector = [Fin 1]\<rparr>],
               seq = 1, last_insert_rowid = 0, io_error = None\<rparr>,
        FAISS_index = [\<lparr>vector = [Fin 1], docId = 1\<rparr>]\<rparr>
   = (Reply 500 (ErrorBody ''Error processing document.''),
       \<lparr>db = \<lparr>rows = [\<lparr>row_id = 1, row_content = ''old text'', row_vector = [Fin 1]\<rparr>],
               seq = 1, last_insert_rowid = 0, io_error = None\<rparr>,
        FAISS_index = [\<lparr>vector = [Fin 1], docId = 1\<rparr>]\<rparr>)"
  using C6_provider_failure_writes_nothing[of "\<lambda>t. Inl (Error ''429'')" "''new text''"
      "Error ''429''"
      "\<lparr>db = \<lparr>rows = [\<lparr>row_id = 1, row_content = ''old text'', row_vector = [Fin 1]\<rparr>],
               seq = 1, last_insert_rowid = 0, io_error = None\<rparr>,
        FAISS_index = [\<lparr>vector = [Fin 1], docId = 1\<rparr>]\<rparr>"]
  by simp

section \<open>A failing answer generator (claim C8)\<close>

text \<open>
  The only error \<open>getAnswer\<close> of embed.js ever throws is that of a prompt that is too
  long; when the provider rejects every call, \<open>getAnswer\<close> never returns an answer, and
  does not throw either.
\<close>

lemma getAnswer_unfold:
  "\<exists>prompt. getAnswer create context question =
     (if length prompt > 10000
      then Inl (Error (''Prompt is too long: '' @ decimal (length prompt) @ '' characters''))
      else (case create prompt of Inr answer \<Rightarrow> Inr (Some answer) | Inl e \<Rightarrow> Inr None))"
  unfolding getAnswer_def Let_def by (rule exI) (rule refl)

lemma getAnswer_throws_only_too_long:
  assumes "getAnswer create context question = Inl err"
  shows "\<exists>n. 10000 < n \<and> err = Error (''Prompt is too long: '' @ decimal n @ '' characters'')"
proof -
  obtain prompt where g: "getAnswer create context question =
     (if length prompt > 10000
      then Inl (Error (''Prompt is too long: '' @ decimal (length prompt) @ '' characters''))
      else (case create prompt of Inr answer \<Rightarrow> Inr (Some answer) | Inl e \<Rightarrow> Inr None))"
    using getAnswer_unfold by blast
  show ?thesis
  proof (cases "length prompt > 10000")
    case True
    then have "err = Error (''Prompt is too long: '' @ decimal (length prompt) @ '' characters'')"
      using assms g by (simp only: if_True sum.inject)
    then show ?thesis using True by blast
  next
    case False
    then have "getAnswer create context question =
        (case create prompt of Inr answer \<Rightarrow> Inr (Some answer) | Inl e \<Rightarrow> Inr None)"
      using g by (simp only: if_False)
    then show ?thesis using assms by (cases "create prompt") simp_all
  qed
qed

lemma getAnswer_swallows_failure:
  assumes "\<And>p. create p = Inl e"
  shows "getAnswer create context question \<noteq> Inr (Some answer)"
proof -
  obtain prompt where g: "getAnswer create context question =
     (if length prompt > 10000
      then Inl (Error (''Prompt is too long: '' @ decimal (length prompt) @ '' characters''))
      else (case create prompt of Inr answer \<Rightarrow> Inr (Some answer) | Inl e \<Rightarrow> Inr None))"
    using getAnswer_unfold by blast
  show ?thesis
  proof (cases "length prompt > 10000")
    case True
    then have "getAnswer create context question
        = Inl (Error (''Prompt is too long: '' @ decimal (length prompt) @ '' characters''))"
      using g by (simp only: if_True)
    then show ?thesis by (simp only: sum.distinct not_False_eq_True)
  next
    case False
    then have "getAnswer create context question = Inr None"
      using g assms[of prompt] by (simp only: if_False sum.case)
    then show ?thesis by simp
  qed
qed

text \<open>
  Claim C8 says that a failure of the answer generator during retrieval reaches the
  caller as a server error, never as a success without an answer. In serverArray.js with
  embedArray.js it does: \<open>getAnswer\<close> throws and the handler answers with status 500. In
  server.js with embed.js, \<open>getAnswer\<close> catches the error, logs it and returns
  \<open>undefined\<close>; the handler answers with status 200 and a body whose \<open>answer\<close> is
  \<open>undefined\<close>. Below, the provider of the chat completion rejects every call.
\<close>

theorem C8_failed_answer_is_success:
  "getAnswer (\<lambda>p. Inl (Error ''429'')) ''1. cats are mammals'' (Some ''about cats'') = Inr None
   \<and> post_search (\<lambda>t. Inr [Fin 1, Fin 0]) (\<lambda>p. Inl (Error ''429'')) (Some ''about cats'') (Some 1)
       \<lparr>db = \<lparr>rows = [\<lparr>row_id = 1, row_content = ''cats are mammals'',
                        row_vector = [Fin 1, Fin 0]\<rparr>],
               seq = 1, last_insert_rowid = 0, io_error = None\<rparr>,
        FAISS_index = [\<lparr>vector = [Fin 1, Fin 0], docId = 1\<rparr>]\<rparr>
     = Reply 200 (Found ''Query: about cats\<newline>Documents:\<newline>1. cats are mammals''
          [\<lparr>hdocId = 1, content = ''cats are mammals'', hscore = Fin 1\<rparr>] None)
   \<and> getAnswerA (\<lambda>p. Inl (Error ''429'')) ''1. cats are mammals'' ''about cats''
     = Inl (Error ''Error generating answer from OpenAI'')
   \<and> post_searchA (\<lambda>t. Inr [Fin 1, Fin 0]) (\<lambda>p. Inl (Error ''429'')) (Some ''about cats'') (Some 1)
       \<lparr>db = \<lparr>rows = [\<lparr>row_id = 1, row_content = ''cats are mammals'',
                        row_vector = [Fin 1, Fin 0]\<rparr>],
               seq = 1, last_insert_rowid = 0, io_error = None\<rparr>,
        FAISS_index = [\<lparr>vector = [Fin 1, Fin 0], docId = 1\<rparr>]\<rparr>
     = Reply 500 (ErrorDetails ''Error processing query.'' ''Error generating answer from OpenAI'')"
proof -
  have a: "getAnswer (\<lambda>p. Inl (Error ''429'')) ''1. cats are mammals'' (Some ''about cats'')
           = Inr None"
    by (simp add: getAnswer_def)
  have b: "post_search (\<lambda>t. Inr [Fin 1, Fin 0]) (\<lambda>p. Inl (Error ''429'')) (Some ''about cats'')
       (Some 1)
       \<lparr>db = \<lparr>rows = [\<lparr>row_id = 1, row_content = ''cats are mammals'',
                        row_vector = [Fin 1, Fin 0]\<rparr>],
               seq = 1, last_insert_rowid = 0, io_error = None\<rparr>,
        FAISS_index = [\<lparr>vector = [Fin 1, Fin 0], docId = 1\<rparr>]\<rparr>
     = Reply 200 (Found ''Query: about cats\<newline>Documents:\<newline>1. cats are mammals''
          [\<lparr>hdocId = 1, content = ''cats are mammals'', hscore = Fin 1\<rparr>] None)"
    by (simp add: post_search_def getEmbeddings_def select_all_def search_results_def
        fromBuffer_def cosineSimilarity_search_def dotProduct_def magnitude_def at_index_def
        js_sq_def enumerate_eq_zip sort_by_def slice0_def numbered_def digit_def
        getAnswer_def)
  have c: "getAnswerA (\<lambda>p. Inl (Error ''429'')) ''1. cats are mammals'' ''about cats''
     = Inl (Error ''Error generating answer from OpenAI'')"
    by (simp add: getAnswerA_def)
  have d: "post_searchA (\<lambda>t. Inr [Fin 1, Fin 0]) (\<lambda>p. Inl (Error ''429''))
       (Some ''about cats'') (Some 1)
       \<lparr>db = \<lparr>rows = [\<lparr>row_id = 1, row_content = ''cats are mammals'',
                        row_vector = [Fin 1, Fin 0]\<rparr>],
               seq = 1, last_insert_rowid = 0, io_error = None\<rparr>,
        FAISS_index = [\<lparr>vector = [Fin 1, Fin 0], docId = 1\<rparr>]\<rparr>
     = Reply 500 (ErrorDetails ''Error processing query.'' ''Error generating answer from OpenAI'')"
    by (simp add: post_searchA_def getEmbeddingsA_def select_in_def slice_ALENGTH_def
        ALENGTH_def FAISS_searchA_def FAISS_resultsA_def cosineSimilarityA_def math_dot_def
        math_norm_def js_sq_def sort_by_def slice0_def numbered_def digit_def getAnswerA_def
        content_of_def enumerate_eq_zip)
  from a b c d show ?thesis by blast
qed

section \<open>Empty content and empty query (claim C9)\<close>

text \<open>
  Claim C9 says that \<open>/add\<close> rejects empty or blank content. The check of the handler is
  \<open>!content\<close>, which holds for an absent field and for the empty string, not for a
  string of blanks: the content of one blank is embedded, stored and indexed.
\<close>

theorem C9_blank_content_counterexample:
  "post_add (\<lambda>t. Inr [Fin 1]) (Some '' '')
       \<lparr>db = \<lparr>rows = [], seq = 0, last_insert_rowid = 0, io_error = None\<rparr>,
        FAISS_index = []\<rparr>
   = (Reply 200 (Added ''Document added.'' 1),
      \<lparr>db = \<lparr>rows = [\<lparr>row_id = 1, row_content = '' '', row_vector = toBuffer [Fin 1]\<rparr>],
              seq = 1, last_insert_rowid = 1, io_error = None\<rparr>,
       FAISS_index = [\<lparr>vector = [Fin 1], docId = 1\<rparr>]\<rparr>)"
  by (simp add: post_add_def getEmbeddings_def insert_or_ignore_def next_id_def FAISS_add_def)

text \<open>
  Claim C9, amended. \<open>/add\<close> answers an absent or empty content with status 400 and
  leaves store and index as they are; \<open>/search\<close> answers an absent or empty query with
  status 400. Both answers are the same for every embedding provider, answer generator
  and state: the handler returns before it calls or reads any of them. This holds in
  server.js and in serverArray.js.
\<close>

theorem C9_empty_is_rejected:
  "post_add openai None s = (Reply 400 (ErrorBody ''Content is required''), s)
   \<and> post_add openai (Some []) s = (Reply 400 (ErrorBody ''Content is required''), s)
   \<and> post_addA openai None s = (Reply 400 (ErrorBody ''Content is required''), s)
   \<and> post_addA openai (Some []) s = (Reply 400 (ErrorBody ''Content is required''), s)
   \<and> post_search openai chat None k s = Reply 400 (ErrorBody ''Query is required'')
   \<and> post_search openai chat (Some []) k s = Reply 400 (ErrorBody ''Query is required'')
   \<and> post_searchA openai chat None k s = Reply 400 (ErrorBody ''Query is required'')
   \<and> post_searchA openai chat (Some []) k s = Reply 400 (ErrorBody ''Query is required'')"
  by (simp add: post_add_def post_addA_def post_search_def post_searchA_def)

section \<open>The search of server.js reads the store (claim C10)\<close>

text \<open>
  The lemmas on sorting for any array sorted by \<open>(a, b) => key(b) - key(a)\<close>.
\<close>

lemma sorted_insert_by_key:
  assumes cmp: "\<And>a b. cmp a b = js_sub (key b) (key a)"
    and "sorted_wrt (\<lambda>a b. js_le (key b) (key a)) ys" "key x \<noteq> NaN"
      "\<forall>y\<in>set ys. key y \<noteq> NaN"
  shows "sorted_wrt (\<lambda>a b. js_le (key b) (key a)) (insert_by cmp x ys)"
proof -
  have pos: "js_pos (cmp a b) = (\<not> js_le (key b) (key a))"
    if "key a \<noteq> NaN" "key b \<noteq> NaN" for a b
    using that by (simp add: cmp js_pos_sub)
  show ?thesis
    using assms(2-)
  proof (induction ys)
    case Nil
    then show ?case by simp
  next
    case (Cons y ys)
    show ?case
    proof (cases "js_pos (cmp x y)")
      case True
      then have "\<not> js_le (key y) (key x)"
        using Cons.prems pos[of x y] by simp
      then have "js_le (key x) (key y)"
        using Cons.prems js_le_total[of "key x" "key y"] by auto
      then show ?thesis
        using True Cons by (auto simp: set_insert_by)
    next
      case False
      then have xy: "js_le (key y) (key x)"
        using Cons.prems pos[of x y] by simp
      have "\<forall>z\<in>set ys. js_le (key z) (key x)"
        using Cons.prems(1) xy by (auto intro: js_le_trans)
      then show ?thesis
        using False Cons.prems(1) xy by auto
    qed
  qed
qed

lemma sorted_sort_by_key:
  assumes cmp: "\<And>a b. cmp a b = js_sub (key b) (key a)"
    and "\<forall>y\<in>set xs. key y \<noteq> NaN"
  shows "sorted_wrt (\<lambda>a b. js_le (key b) (key a)) (sort_by cmp xs)"
  using assms(2)
proof (induction xs)
  case Nil
  then show ?case by (simp add: sort_by_def)
next
  case (Cons x xs)
  then show ?case
    by (simp add: sort_by_Cons sorted_insert_by_key[OF cmp] set_sort_by)
qed

lemma filter_insert_by_key:
  assumes cmp: "\<And>a b. cmp a b = js_sub (key b) (key a)"
    and "key x = sc" "sc \<noteq> NaN" "\<forall>y\<in>set ys. key y \<noteq> NaN"
  shows "filter (\<lambda>r. key r = sc) (insert_by cmp x ys) = x # filter (\<lambda>r. key r = sc) ys"
proof -
  have pos: "js_pos (cmp a b) = (\<not> js_le (key b) (key a))"
    if "key a \<noteq> NaN" "key b \<noteq> NaN" for a b
    using that by (simp add: cmp js_pos_sub)
  show ?thesis
    using assms(2-)
  proof (induction ys)
    case Nil
    then show ?case by simp
  next
    case (Cons y ys)
    show ?case
    proof (cases "js_pos (cmp x y)")
      case True
      then have "\<not> js_le (key y) (key x)"
        using Cons.prems pos[of x y] by simp
      then have "key y \<noteq> sc"
        using Cons.prems js_le_refl by auto
      then show ?thesis
        using True Cons by auto
    next
      case False
      then show ?thesis
        using Cons.prems by auto
    qed
  qed
qed

lemma stable_sort_by_key:
  assumes cmp: "\<And>a b. cmp a b = js_sub (key b) (key a)"
    and "\<forall>y\<in>set xs. key y \<noteq> NaN"
  shows "filter (\<lambda>r. key r = sc) (sort_by cmp xs) = filter (\<lambda>r. key r = sc) xs"
  using assms(2)
proof (induction xs)
  case Nil
  then show ?case by (simp add: sort_by_def)
next
  case (Cons x xs)
  show ?case
  proof (cases "key x = sc")
    case True
    then show ?thesis
      using Cons by (simp add: sort_by_Cons filter_insert_by_key[OF cmp] set_sort_by)
  next
    case False
    then show ?thesis
      using Cons by (simp add: sort_by_Cons filter_insert_by_other)
  qed
qed

lemma by_hscore_key: "by_hscore a b = js_sub (hscore b) (hscore a)"
  by (simp add: by_hscore_def)

lemma set_slice0: "set (slice0 xs k) \<subseteq> set xs"
  by (auto simp: slice0_def dest: in_set_takeD)

text \<open>What the handler answers with, when it answers with results.\<close>

lemma post_search_Found:
  assumes "post_search openai chat q k s = Reply 200 (Found prompt hits answer)"
  shows "\<exists>query queryVector.
           q = Some query \<and> openai query = Inr queryVector
           \<and> hits = slice0 (sort_by by_hscore (search_results queryVector (rows (db s))))
                      (case k of None \<Rightarrow> 5 | Some k \<Rightarrow> k)"
  using assms
  by (auto simp: post_search_def getEmbeddings_def select_all_def Let_def
      split: option.splits if_splits sum.splits)

lemma post_search_answers:
  assumes "query \<noteq> []" "openai query = Inr queryVector" "io_error (db s) = None"
    "hits = slice0 (sort_by by_hscore (search_results queryVector (rows (db s)))) k"
    "prompt = ''Query: '' @ query @ ''\<newline>Documents:\<newline>''
              @ join ''\<newline>'' (numbered (map content hits))"
    "getAnswer chat prompt None = Inr answer"
  shows "post_search openai chat (Some query) (Some k) s = Reply 200 (Found prompt hits answer)"
  using assms
  by (simp add: post_search_def getEmbeddings_def select_all_def Let_def)

text \<open>
  Claim C10. The handler of \<open>/search\<close> in server.js gives the same response whatever the
  index holds. Its array \<open>results\<close> holds every row of the store, in the order of the
  rows, with the row's id and content and the score of the row's stored vector against
  the query vector; that score is the cosine similarity as \<open>FAISS.search\<close> computes it,
  but \<open>0\<close> where a magnitude is \<open>0\<close> or \<open>NaN\<close>. When the handler answers with hits,
  these are the first \<open>k\<close> elements of a rearrangement of \<open>results\<close> (so every hit is a
  row of the store with its score, and with \<open>k\<close> at least the number of rows every row
  of the store is among the hits, whether the index holds it or not); when no score is
  \<open>NaN\<close>, that rearrangement and the hits are in non-increasing score, rows of equal
  score in the order of the store.
\<close>

theorem C10_search_reads_store:
  "post_search openai chat q k (s\<lparr>FAISS_index := ix\<rparr>) = post_search openai chat q k s
   \<and> map hdocId (search_results qv rws) = map row_id rws
   \<and> map content (search_results qv rws) = map row_content rws
   \<and> map hscore (search_results qv rws)
       = map (\<lambda>row. cosineSimilarity_search qv (fromBuffer (row_vector row))) rws
   \<and> (truthy (magnitude a) \<and> truthy (magnitude b) \<longrightarrow>
        cosineSimilarity_search a b = cosineSimilarity a b)
   \<and> (\<not> (truthy (magnitude a) \<and> truthy (magnitude b)) \<longrightarrow>
        cosineSimilarity_search a b = Fin 0)
   \<and> (post_search openai chat q k s = Reply 200 (Found prompt hits answer) \<longrightarrow>
        (\<exists>query queryVector full.
           q = Some query \<and> openai query = Inr queryVector
           \<and> mset full = mset (search_results queryVector (rows (db s)))
           \<and> hits = slice0 full (case k of None \<Rightarrow> 5 | Some k \<Rightarrow> k)
           \<and> set hits \<subseteq> set (search_results queryVector (rows (db s)))
           \<and> (int (length (rows (db s))) \<le> (case k of None \<Rightarrow> 5 | Some k \<Rightarrow> k) \<longrightarrow>
                mset hits = mset (search_results queryVector (rows (db s)))
                \<and> mset (map hdocId hits) = mset (map row_id (rows (db s))))
           \<and> ((\<forall>h\<in>set (search_results queryVector (rows (db s))). hscore h \<noteq> NaN) \<longrightarrow>
                sorted_wrt hdescending full
                \<and> sorted_wrt hdescending hits
                \<and> (\<forall>sc. filter (\<lambda>h. hscore h = sc) full
                        = filter (\<lambda>h. hscore h = sc)
                            (search_results queryVector (rows (db s)))))))"
proof -
  have a: "post_search openai chat q k (s\<lparr>FAISS_index := ix\<rparr>) = post_search openai chat q k s"
    by (simp add: post_search_def split: option.splits sum.splits)
  have b: "map hdocId (search_results qv rws) = map row_id rws"
    "map content (search_results qv rws) = map row_content rws"
    "map hscore (search_results qv rws)
       = map (\<lambda>row. cosineSimilarity_search qv (fromBuffer (row_vector row))) rws"
    by (simp_all add: search_results_def comp_def)
  have c: "truthy (magnitude a) \<and> truthy (magnitude b) \<longrightarrow>
        cosineSimilarity_search a b = cosineSimilarity a b"
    "\<not> (truthy (magnitude a) \<and> truthy (magnitude b)) \<longrightarrow> cosineSimilarity_search a b = Fin 0"
    by (simp_all add: cosineSimilarity_search_def cosineSimilarity_def)
  have d: "\<exists>query queryVector full.
           q = Some query \<and> openai query = Inr queryVector
           \<and> mset full = mset (search_results queryVector (rows (db s)))
           \<and> hits = slice0 full (case k of None \<Rightarrow> 5 | Some k \<Rightarrow> k)
           \<and> set hits \<subseteq> set (search_results queryVector (rows (db s)))
           \<and> (int (length (rows (db s))) \<le> (case k of None \<Rightarrow> 5 | Some k \<Rightarrow> k) \<longrightarrow>
                mset hits = mset (search_results queryVector (rows (db s)))
                \<and> mset (map hdocId hits) = mset (map row_id (rows (db s))))
           \<and> ((\<forall>h\<in>set (search_results queryVector (rows (db s))). hscore h \<noteq> NaN) \<longrightarrow>
                sorted_wrt hdescending full
                \<and> sorted_wrt hdescending hits
                \<and> (\<forall>sc. filter (\<lambda>h. hscore h = sc) full
                        = filter (\<lambda>h. hscore h = sc)
                            (search_results queryVector (rows (db s)))))"
    if r: "post_search openai chat q k s = Reply 200 (Found prompt hits answer)"
  proof -
    from post_search_Found[OF r] obtain query queryVector where
      q: "q = Some query" "openai query = Inr queryVector" and
      h: "hits = slice0 (sort_by by_hscore (search_results queryVector (rows (db s))))
                   (case k of None \<Rightarrow> 5 | Some k \<Rightarrow> k)"
      by blast
    let ?results = "search_results queryVector (rows (db s))"
    let ?full = "sort_by by_hscore ?results"
    let ?k = "case k of None \<Rightarrow> 5 | Some k \<Rightarrow> k"
    have len: "length ?full = length (rows (db s))"
      by (simp add: length_sort_by search_results_def)
    have m: "mset ?full = mset ?results"
      by (rule mset_sort_by)
    have ids: "map hdocId ?results = map row_id (rows (db s))"
      by (simp add: search_results_def comp_def)
    have sub: "set hits \<subseteq> set ?results"
      unfolding h using set_slice0[of ?full ?k] by (simp add: set_sort_by)
    have all: "mset hits = mset ?results
               \<and> mset (map hdocId hits) = mset (map row_id (rows (db s)))"
      if "int (length (rows (db s))) \<le> ?k"
    proof -
      have e: "hits = ?full"
        unfolding h using that len by (intro slice0_all) simp
      then have mh: "mset hits = mset ?results"
        by (simp add: m)
      then have "mset (map hdocId hits) = mset (map hdocId ?results)"
        by (metis mset_map)
      then have "mset (map hdocId hits) = mset (map row_id (rows (db s)))"
        unfolding ids .
      with mh show ?thesis
        by blast
    qed
    have ord: "sorted_wrt hdescending ?full
                \<and> sorted_wrt hdescending hits
                \<and> (\<forall>sc. filter (\<lambda>h. hscore h = sc) ?full = filter (\<lambda>h. hscore h = sc) ?results)"
      if nonan: "\<forall>h\<in>set ?results. hscore h \<noteq> NaN"
    proof -
      have "sorted_wrt (\<lambda>a b. js_le (hscore b) (hscore a)) ?full"
        using by_hscore_key nonan by (rule sorted_sort_by_key)
      then have s: "sorted_wrt hdescending ?full"
        by (simp add: hdescending_def[abs_def])
      then have "sorted_wrt hdescending hits"
        unfolding h by (rule sorted_wrt_slice0)
      moreover have "filter (\<lambda>h. hscore h = sc) ?full = filter (\<lambda>h. hscore h = sc) ?results"
        for sc
        using by_hscore_key nonan by (rule stable_sort_by_key)
      ultimately show ?thesis
        using s by blast
    qed
    from q h m sub all ord show ?thesis
      by blast
  qed
  from a b c d show ?thesis
    by blast
qed

theorem C10_search_reads_store_witness:
  "post_search (\<lambda>t. Inr [Fin 1, Fin 0]) (\<lambda>p. Inr ''yes'') (Some ''about cats'') (Some 3)
     \<lparr>db = \<lparr>rows = [\<lparr>row_id = 1, row_content = ''dogs bark'', row_vector = [Fin 0, Fin 1]\<rparr>,
                     \<lparr>row_id = 2, row_content = ''cats are mammals'',
                      row_vector = [Fin 1, Fin 0]\<rparr>,
                     \<lparr>row_id = 3, row_content = ''nothing'', row_vector = [Fin 0, Fin 0]\<rparr>],
             seq = 3, last_insert_rowid = 0, io_error = None\<rparr>,
      FAISS_index = []\<rparr>
   = Reply 200
       (Found ''Query: about cats\<newline>Documents:\<newline>1. cats are mammals\<newline>2. dogs bark\<newline>3. nothing''
          [\<lparr>hdocId = 2, content = ''cats are mammals'', hscore = Fin 1\<rparr>,
           \<lparr>hdocId = 1, content = ''dogs bark'', hscore = Fin 0\<rparr>,
           \<lparr>hdocId = 3, content = ''nothing'', hscore = Fin 0\<rparr>] (Some ''yes''))
   \<and> post_search (\<lambda>t. Inr [Fin 1, Fin 0]) (\<lambda>p. Inr ''yes'') (Some ''about cats'') (Some 1)
     \<lparr>db = \<lparr>rows = [\<lparr>row_id = 1, row_content = ''dogs bark'', row_vector = [Fin 0, Fin 1]\<rparr>,
                     \<lparr>row_id = 2, row_content = ''cats are mammals'',
                      row_vector = [Fin 1, Fin 0]\<rparr>,
                     \<lparr>row_id = 3, row_content = ''nothing'', row_vector = [Fin 0, Fin 0]\<rparr>],
             seq = 3, last_insert_rowid = 0, io_error = None\<rparr>,
      FAISS_index = []\<rparr>
   = Reply 200
       (Found ''Query: about cats\<newline>Documents:\<newline>1. cats are mammals''
          [\<lparr>hdocId = 2, content = ''cats are mammals'', hscore = Fin 1\<rparr>] (Some ''yes''))
   \<and> sorted_wrt hdescending
          [\<lparr>hdocId = 2, content = ''cats are mammals'', hscore = Fin 1\<rparr>,
           \<lparr>hdocId = 1, content = ''dogs bark'', hscore = Fin 0\<rparr>,
           \<lparr>hdocId = 3, content = ''nothing'', hscore = Fin 0\<rparr>]
   \<and> mset (map hdocId
          [\<lparr>hdocId = 2, content = ''cats are mammals'', hscore = Fin 1\<rparr>,
           \<lparr>hdocId = 1, content = ''dogs bark'', hscore = Fin 0\<rparr>,
           \<lparr>hdocId = 3, content = ''nothing'', hscore = Fin 0\<rparr>])
     = mset [1, 2, 3]"
proof -
  define rws where "rws =
     [\<lparr>row_id = 1, row_content = ''dogs bark'', row_vector = [Fin 0, Fin 1]\<rparr>,
      \<lparr>row_id = 2, row_content = ''cats are mammals'', row_vector = [Fin 1, Fin 0]\<rparr>,
      \<lparr>row_id = 3, row_content = ''nothing'', row_vector = [Fin 0, Fin 0]\<rparr>]"
  define s where "s =
     \<lparr>db = \<lparr>rows = rws, seq = 3, last_insert_rowid = 0, io_error = None\<rparr>, FAISS_index = []\<rparr>"
  define hits where "hits =
     [\<lparr>hdocId = 2, content = ''cats are mammals'', hscore = Fin 1\<rparr>,
      \<lparr>hdocId = 1, content = ''dogs bark'', hscore = Fin 0\<rparr>,
      \<lparr>hdocId = 3, content = ''nothing'', hscore = Fin 0\<rparr>]"
  define hit where "hit = [\<lparr>hdocId = 2, content = ''cats are mammals'', hscore = Fin 1\<rparr>]"
  define p3 where "p3 =
     ''Query: about cats\<newline>Documents:\<newline>1. cats are mammals\<newline>2. dogs bark\<newline>3. nothing''"
  define p1 where "p1 = ''Query: about cats\<newline>Documents:\<newline>1. cats are mammals''"
  define openai :: embeddings_api where "openai = (\<lambda>t. Inr [Fin 1, Fin 0])"
  define chat :: chat_api where "chat = (\<lambda>p. Inr ''yes'')"
  have d: "rows (db s) = rws" "io_error (db s) = None"
    by (simp_all add: s_def)
  have res: "search_results [Fin 1, Fin 0] rws
      = [\<lparr>hdocId = 1, content = ''dogs bark'', hscore = Fin 0\<rparr>,
         \<lparr>hdocId = 2, content = ''cats are mammals'', hscore = Fin 1\<rparr>,
         \<lparr>hdocId = 3, content = ''nothing'', hscore = Fin 0\<rparr>]"
    by (simp add: rws_def search_results_def fromBuffer_def cosineSimilarity_search_def
        dotProduct_def magnitude_def at_index_def js_sq_def enumerate_eq_zip)
  have h3: "hits = slice0 (sort_by by_hscore (search_results [Fin 1, Fin 0] (rows (db s)))) 3"
    unfolding d res hits_def
    by (simp add: by_hscore_def js_sub_def js_pos_def sort_by_def slice0_def)
  have h1: "hit = slice0 (sort_by by_hscore (search_results [Fin 1, Fin 0] (rows (db s)))) 1"
    unfolding d res hit_def
    by (simp add: by_hscore_def js_sub_def js_pos_def sort_by_def slice0_def)
  have q3: "p3 = ''Query: '' @ ''about cats'' @ ''\<newline>Documents:\<newline>''
                 @ join ''\<newline>'' (numbered (map content hits))"
    by (simp add: p3_def hits_def numbered_def digit_def enumerate_eq_zip)
  have q1: "p1 = ''Query: '' @ ''about cats'' @ ''\<newline>Documents:\<newline>''
                 @ join ''\<newline>'' (numbered (map content hit))"
    by (simp add: p1_def hit_def numbered_def digit_def enumerate_eq_zip)
  have a3: "getAnswer chat p3 None = Inr (Some ''yes'')"
    by (simp add: getAnswer_def chat_def p3_def)
  have a1: "getAnswer chat p1 None = Inr (Some ''yes'')"
    by (simp add: getAnswer_def chat_def p1_def)
  have e: "openai ''about cats'' = Inr [Fin 1, Fin 0]" "''about cats'' \<noteq> []"
    by (simp_all add: openai_def)
  have r3: "post_search openai chat (Some ''about cats'') (Some 3) s
            = Reply 200 (Found p3 hits (Some ''yes''))"
    using e(2) e(1) d(2) h3 q3 a3 by (rule post_search_answers)
  have r1: "post_search openai chat (Some ''about cats'') (Some 1) s
            = Reply 200 (Found p1 hit (Some ''yes''))"
    using e(2) e(1) d(2) h1 q1 a1 by (rule post_search_answers)
  from C10_search_reads_store[where openai = openai and chat = chat
      and q = "Some ''about cats''" and k = "Some 3" and s = s and ix = "[]" and hits = hits
      and answer = "Some ''yes''" and prompt = p3] r3
  obtain queryVector where
    v: "openai ''about cats'' = Inr queryVector" and
    all: "int (length (rows (db s))) \<le> (case Some 3 of None \<Rightarrow> 5 | Some k \<Rightarrow> k) \<longrightarrow>
            mset (map hdocId hits) = mset (map row_id (rows (db s)))" and
    ord: "(\<forall>h\<in>set (search_results queryVector (rows (db s))). hscore h \<noteq> NaN) \<longrightarrow>
            sorted_wrt hdescending hits"
    by blast
  have qv: "queryVector = [Fin 1, Fin 0]"
    using v e(1) by simp
  have "\<forall>h\<in>set (search_results [Fin 1, Fin 0] (rows (db s))). hscore h \<noteq> NaN"
    unfolding d res by simp
  then have o: "sorted_wrt hdescending hits"
    using ord unfolding qv by blast
  have "int (length (rows (db s))) \<le> (case Some 3 of None \<Rightarrow> 5 | Some k \<Rightarrow> k)"
    by (simp add: d rws_def)
  then have "mset (map hdocId hits) = mset (map row_id (rows (db s)))"
    using all by blast
  then have m: "mset (map hdocId hits) = mset [1, 2, 3]"
    by (simp add: d rws_def)
  from r3 r1 o m show ?thesis
    unfolding s_def rws_def hits_def hit_def p3_def p1_def openai_def chat_def
    by (simp only: simp_thms)
qed

section \<open>The round trip through the store (claim C7)\<close>

subsection \<open>Powers of two and the exponent\<close>

lemma pow2_powr: "pow2 e = 2 powr (real_of_int e)"
  by (simp add: pow2_def powr_int)

lemma pow2_pos: "0 < pow2 e"
  by (simp add: pow2_powr)

lemma pow2_add: "pow2 (i + j) = pow2 i * pow2 j"
  by (simp add: pow2_powr powr_add)

lemma pow2_le_iff: "pow2 i \<le> pow2 j \<longleftrightarrow> i \<le> j"
  by (simp add: pow2_powr)

lemma pow2_less_iff: "pow2 i < pow2 j \<longleftrightarrow> i < j"
  by (simp add: pow2_powr)

lemma pow2_nat: "pow2 (int n) = 2 ^ n"
  by (simp add: pow2_def)

lemma exponent_upto_range: "- 126 \<le> exponent_upto n a \<and> exponent_upto n a \<le> int n - 126"
  by (induction n) auto

lemma exponent_upto_lower: "- 126 < exponent_upto n a \<Longrightarrow> pow2 (exponent_upto n a) \<le> a"
  by (induction n) (auto split: if_splits)

lemma exponent_upto_upper:
  "exponent_upto n a < int n - 126 \<Longrightarrow> a < pow2 (exponent_upto n a + 1)"
proof (induction n)
  case 0
  then show ?case by simp
next
  case (Suc n)
  show ?case
  proof (cases "pow2 (int n - 125) \<le> a")
    case True
    then show ?thesis using Suc.prems by simp
  next
    case nle: False
    then have eq: "exponent_upto (Suc n) a = exponent_upto n a"
      by simp
    show ?thesis
    proof (cases "exponent_upto n a < int n - 126")
      case True
      then show ?thesis
        unfolding eq by (rule Suc.IH)
    next
      case False
      then have "exponent_upto n a = int n - 126"
        using exponent_upto_range[of n a] by linarith
      then have e1: "exponent_upto n a + 1 = int n - 125"
        by linarith
      have "a < pow2 (int n - 125)"
        using nle by simp
      then show ?thesis
        unfolding eq e1 .
    qed
  qed
qed

lemma exponent_unique:
  assumes "- 126 \<le> e" "e \<le> int n - 126"
    "- 126 < e \<Longrightarrow> pow2 e \<le> a" "e < int n - 126 \<Longrightarrow> a < pow2 (e + 1)"
  shows "exponent_upto n a = e"
proof (rule ccontr)
  assume ne: "exponent_upto n a \<noteq> e"
  let ?f = "exponent_upto n a"
  have rg: "- 126 \<le> ?f" "?f \<le> int n - 126"
    using exponent_upto_range[of n a] by auto
  show False
  proof (cases "?f < e")
    case True
    then have "pow2 e \<le> a" using assms(3) rg by linarith
    moreover have "a < pow2 (?f + 1)"
      using exponent_upto_upper[of n a] True assms(2) by linarith
    moreover have "pow2 (?f + 1) \<le> pow2 e"
      using True by (simp add: pow2_le_iff)
    ultimately show False by linarith
  next
    case False
    then have gt: "e < ?f" using ne by linarith
    then have "pow2 ?f \<le> a" using exponent_upto_lower[of n a] assms(1) by linarith
    moreover have "a < pow2 (e + 1)"
      using assms(4) gt rg by linarith
    moreover have "pow2 (e + 1) \<le> pow2 ?f"
      using gt by (simp add: pow2_le_iff)
    ultimately show False by linarith
  qed
qed

lemma round_even_int: "round_even (of_int n) = n"
  by (simp add: round_even_def)

lemma round_even_lower: "of_int lo \<le> r \<Longrightarrow> lo \<le> round_even r"
proof -
  assume "of_int lo \<le> r"
  then have "lo \<le> \<lfloor>r\<rfloor>" by (simp add: le_floor_iff)
  then show ?thesis by (simp add: round_even_def Let_def)
qed

lemma round_even_upper: "r \<le> of_int hi \<Longrightarrow> round_even r \<le> hi"
proof -
  assume h: "r \<le> of_int hi"
  then have f: "\<lfloor>r\<rfloor> \<le> hi" by (simp add: floor_le_iff) 
  show ?thesis
  proof (cases "\<lfloor>r\<rfloor> = hi")
    case True
    then have "r - of_int \<lfloor>r\<rfloor> \<le> 0" using h by simp
    then show ?thesis using True by (simp add: round_even_def Let_def)
  next
    case False
    then have "\<lfloor>r\<rfloor> + 1 \<le> hi" using f by linarith
    then show ?thesis using f by (simp add: round_even_def Let_def)
  qed
qed

subsection \<open>Rounding twice\<close>

lemma nearest_exact:
  assumes "exponent_upto 253 r = e" "r = of_int m * pow2 (e - 23)"
  shows "nearest_binary32 r = r"
proof -
  have "pow2 (e - 23) \<noteq> 0"
    using pow2_pos[of "e - 23"] by simp
  then have "r / pow2 (e - 23) = of_int m"
    using assms(2) by simp
  then show ?thesis
    using assms by (simp add: nearest_binary32_def Let_def round_even_int)
qed

lemma pow2_23: "pow2 23 = of_int (2 ^ 23)"
  by (simp add: pow2_def)

lemma pow2_24: "pow2 24 = of_int (2 ^ 24)"
  by (simp add: pow2_def)

lemma nearest_nonneg: "0 \<le> a \<Longrightarrow> 0 \<le> nearest_binary32 a"
proof -
  assume a: "0 \<le> a"
  let ?q = "pow2 (exponent_upto 253 a - 23)"
  have q: "0 < ?q" by (rule pow2_pos)
  then have "of_int 0 \<le> a / ?q" using a by simp
  then have "0 \<le> round_even (a / ?q)" by (rule round_even_lower)
  then show ?thesis using q by (simp add: nearest_binary32_def Let_def)
qed

lemma nearest_idem:
  assumes a: "0 \<le> a" and fin: "nearest_binary32 a < pow2 128"
  shows "nearest_binary32 (nearest_binary32 a) = nearest_binary32 a"
proof -
  define e where "e = exponent_upto 253 a"
  define q where "q = pow2 (e - 23)"
  define m where "m = round_even (a / q)"
  define r where "r = of_int m * q"
  have r: "nearest_binary32 a = r"
    by (simp add: nearest_binary32_def Let_def r_def m_def q_def e_def)
  have q: "0 < q"
    unfolding q_def by (rule pow2_pos)
  have erange: "- 126 \<le> e" "e \<le> 127"
    using exponent_upto_range[of 253 a] by (auto simp: e_def)
  have pe: "pow2 e = q * pow2 23"
  proof -
    have "e = (e - 23) + 23" by simp
    then have "pow2 e = pow2 ((e - 23) + 23)" by (rule arg_cong)
    then show ?thesis unfolding q_def by (simp only: pow2_add)
  qed
  have pe1: "pow2 (e + 1) = q * pow2 24"
  proof -
    have "e + 1 = (e - 23) + 24" by simp
    then have "pow2 (e + 1) = pow2 ((e - 23) + 24)" by (rule arg_cong)
    then show ?thesis unfolding q_def by (simp only: pow2_add)
  qed
  have p24: "pow2 24 = 2 * pow2 23"
    by (simp add: pow2_def)
  have m0: "0 \<le> m"
  proof -
    have "of_int 0 \<le> a / q" using a q by simp
    then show ?thesis unfolding m_def by (rule round_even_lower)
  qed
  have mlow: "2 ^ 23 \<le> m" if "- 126 < e"
  proof -
    have "pow2 e \<le> a"
      using exponent_upto_lower[of 253 a] that by (simp add: e_def)
    then have "pow2 23 \<le> a / q"
      using q pe by (simp add: pos_le_divide_eq mult.commute)
    then have "of_int (2 ^ 23) \<le> a / q"
      by (simp only: pow2_23)
    then show ?thesis unfolding m_def by (rule round_even_lower)
  qed
  have mhigh: "m \<le> 2 ^ 24"
  proof (cases "e < 127")
    case True
    then have "a < pow2 (e + 1)"
      using exponent_upto_upper[of 253 a] by (simp add: e_def)
    then have "a / q \<le> pow2 24"
      using q pe1 by (simp add: pos_divide_le_eq mult.commute)
    then have "a / q \<le> of_int (2 ^ 24)"
      by (simp only: pow2_24)
    then show ?thesis unfolding m_def by (rule round_even_upper)
  next
    case False
    then have e127: "e = 127" using erange by linarith
    have "pow2 128 = q * pow2 24"
      using pe1 e127 by simp
    then have "of_int m * q < pow2 24 * q"
      using fin r by (simp add: r_def mult.commute)
    then have "of_int m < pow2 24"
      using q by simp
    then have "of_int m < (of_int (2 ^ 24) :: real)"
      by (simp only: pow2_24)
    then have "m < 2 ^ 24"
      by (simp only: of_int_less_iff)
    then show ?thesis by simp
  qed
  have e127: "e < 127" if "m = 2 ^ 24"
  proof (rule ccontr)
    assume "\<not> e < 127"
    then have e127: "e = 127" using erange by linarith
    have "pow2 128 = q * pow2 24"
      using pe1 e127 by simp
    moreover have "r = pow2 24 * q"
      unfolding r_def that by (simp only: pow2_24)
    ultimately show False using fin r by (simp add: mult.commute)
  qed
  consider (sub) "m < 2 ^ 23" | (norm) "2 ^ 23 \<le> m" "m < 2 ^ 24" | (top) "m = 2 ^ 24"
    using mhigh by linarith
  then have "nearest_binary32 r = r"
  proof cases
    case sub
    then have e: "e = - 126"
      using mlow erange by force
    have "(of_int m :: real) < of_int (2 ^ 23)"
      using sub by (simp only: of_int_less_iff)
    then have "of_int m < pow2 23"
      by (simp only: pow2_23)
    then have "r < pow2 e"
      unfolding r_def pe using q by (simp add: mult.commute)
    also have "pow2 e < pow2 (- 125)"
      unfolding e by (simp add: pow2_less_iff)
    finally have hi: "r < pow2 (- 125)" .
    have "exponent_upto 253 r = - 126"
    proof (rule exponent_unique)
      show "- 126 \<le> (- 126 :: int)" by simp
      show "- 126 \<le> int 253 - 126" by simp
      show "pow2 (- 126) \<le> r" if "- 126 < (- 126 :: int)" using that by simp
      show "r < pow2 (- 126 + 1)" using hi by simp
    qed
    then show ?thesis
      by (rule nearest_exact[where m = m]) (simp add: r_def q_def e)
  next
    case norm
    have "(of_int (2 ^ 23) :: real) \<le> of_int m"
      using norm(1) by (simp only: of_int_le_iff)
    then have "pow2 23 \<le> of_int m"
      by (simp only: pow2_23)
    then have lo: "pow2 e \<le> r"
      unfolding r_def pe using q by (simp add: mult.commute)
    have "(of_int m :: real) < of_int (2 ^ 24)"
      using norm(2) by (simp only: of_int_less_iff)
    then have "of_int m < pow2 24"
      by (simp only: pow2_24)
    then have hi: "r < pow2 (e + 1)"
      unfolding r_def pe1 using q by (simp add: mult.commute)
    have "exponent_upto 253 r = e"
    proof (rule exponent_unique)
      show "- 126 \<le> e" by (rule erange)
      show "e \<le> int 253 - 126" using erange by simp
      show "pow2 e \<le> r" by (rule lo)
      show "r < pow2 (e + 1)" by (rule hi)
    qed
    then show ?thesis
      by (rule nearest_exact[where m = m]) (simp add: r_def q_def)
  next
    case top
    then have lt: "e < 127" by (rule e127)
    have rr: "r = pow2 (e + 1)"
      unfolding r_def top pe1 by (simp only: pow2_24 mult.commute)
    have "exponent_upto 253 r = e + 1"
    proof (rule exponent_unique)
      show "- 126 \<le> e + 1" using erange by simp
      show "e + 1 \<le> int 253 - 126" using lt by simp
      show "pow2 (e + 1) \<le> r" using rr by simp
      show "r < pow2 (e + 1 + 1)" unfolding rr by (simp add: pow2_less_iff)
    qed
    moreover have "r = of_int (2 ^ 23) * pow2 (e + 1 - 23)"
    proof -
      have "e + 1 = 23 + (e + 1 - 23)" by simp
      then have "pow2 (e + 1) = pow2 (23 + (e + 1 - 23))" by (rule arg_cong)
      then have "pow2 (e + 1) = pow2 23 * pow2 (e + 1 - 23)"
        by (simp only: pow2_add)
      then show ?thesis
        unfolding rr by (simp only: pow2_23)
    qed
    ultimately show ?thesis
      by (rule nearest_exact)
  qed
  then show ?thesis
    by (simp only: r)
qed

lemma fround_real_idem: "fround (fround_real x) = fround_real x"
proof (cases "pow2 128 \<le> nearest_binary32 \<bar>x\<bar>")
  case True
  then show ?thesis
    by (simp add: fround_real_def Let_def js_inf_def)
next
  case False
  define r where "r = nearest_binary32 \<bar>x\<bar>"
  define y where "y = (if x < 0 then - r else r)"
  have r0: "0 \<le> r"
    unfolding r_def by (rule nearest_nonneg) simp
  have fx: "fround_real x = Fin y"
    using False by (simp add: fround_real_def Let_def r_def y_def)
  have ay: "\<bar>y\<bar> = r"
    using r0 by (simp add: y_def)
  have "nearest_binary32 r = r"
    unfolding r_def using False by (intro nearest_idem) simp_all
  then have "fround_real y = Fin (if y < 0 then - r else r)"
    using False by (simp add: fround_real_def Let_def ay r_def)
  moreover have "(if y < 0 then - r else r) = y"
    using r0 by (auto simp: y_def)
  ultimately show ?thesis
    by (simp add: fx)
qed

lemma fround_idem: "fround (fround v) = fround v"
  by (cases v) (simp_all add: fround_real_idem)

text \<open>
  Claim C7 says that a vector written to the store and read back is equal to the
  original. \<open>/add\<close> writes \<open>new Float32Array(vector)\<close>: every component is rounded to
  binary32. The number \<open>1/2 + 2^-25\<close> (a binary64 value, so a number of JavaScript) is
  read back as \<open>1/2\<close>.
\<close>

theorem C7_round_trip_counterexample:
  "fromBuffer (toBuffer [Fin (16777217 / 33554432)]) = [Fin (1 / 2)]
   \<and> fromBuffer (toBuffer [Fin (16777217 / 33554432)]) \<noteq> [Fin (16777217 / 33554432)]"
  by code_simp

text \<open>
  Claim C7, amended. A vector written to the store and read back is the vector of the
  binary32 roundings of its components, in the same order. It is equal to the original
  exactly when every component is a binary32 value (rounding leaves it as it is); and
  what was read from the store round-trips exactly: a second round trip changes nothing.
\<close>

theorem C7_round_trip_rounds_once:
  "fromBuffer (toBuffer v) = map fround v
   \<and> (fromBuffer (toBuffer v) = v) = list_all (\<lambda>x. fround x = x) v
   \<and> fromBuffer (toBuffer (fromBuffer (toBuffer v))) = fromBuffer (toBuffer v)"
proof -
  have "(map fround v = v) = list_all (\<lambda>x. fround x = x) v"
    by (induction v) simp_all
  then show ?thesis
    by (simp add: fromBuffer_def toBuffer_def fround_idem)
qed

end
